theory Spec2Isabelle
  imports Complex_Main "HOL-Library.AList" "HOL-Library.Monad_Syntax"
begin

section \<open>Numbers\<close>

text \<open>
  The entries of a \<^verbatim>\<open>jnp.ndarray\<close> are modelled by exact real arithmetic: rounding is
  outside the model. \<open>Fin x\<close> is the finite number \<open>x\<close>. \<open>NaN\<close> is the outcome of an
  operation that has no finite real result (a division by zero, a negative power of
  zero, a fractional power of a negative number); it stands for the IEEE infinities as
  well as for not-a-number, and every arithmetic operation hands it on. A result
  \<open>Fin x\<close> of the model therefore says that the code computes \<open>x\<close> through finite
  values only.
\<close>

datatype num = Fin real | NaN

instantiation num :: comm_monoid_add
begin

definition zero_num :: num where
  "zero_num = Fin 0"

fun plus_num :: "num \<Rightarrow> num \<Rightarrow> num" where
  "plus_num (Fin a) (Fin b) = Fin (a + b)"
| "plus_num _ _ = NaN"

instance
proof (standard, goal_cases)
  case (1 x y z)
  show ?case
    by (cases x; cases y; cases z; simp)
next
  case (2 x y)
  show ?case
    by (cases x; cases y; simp)
next
  case (3 x)
  show ?case
    by (cases x; simp add: zero_num_def)
qed

end

instantiation num :: "{one, times, minus, inverse, abs}"
begin

definition one_num :: num where
  "one_num = Fin 1"

fun times_num :: "num \<Rightarrow> num \<Rightarrow> num" where
  "times_num (Fin a) (Fin b) = Fin (a * b)"
| "times_num _ _ = NaN"

fun minus_num :: "num \<Rightarrow> num \<Rightarrow> num" where
  "minus_num (Fin a) (Fin b) = Fin (a - b)"
| "minus_num _ _ = NaN"

fun inverse_num :: "num \<Rightarrow> num" where
  "inverse_num (Fin a) = (if a = 0 then NaN else Fin (1 / a))"
| "inverse_num NaN = NaN"

fun divide_num :: "num \<Rightarrow> num \<Rightarrow> num" where
  "divide_num (Fin a) (Fin b) = (if b = 0 then NaN else Fin (a / b))"
| "divide_num _ _ = NaN"

fun abs_num :: "num \<Rightarrow> num" where
  "abs_num (Fin a) = Fin \<bar>a\<bar>"
| "abs_num NaN = NaN"

instance ..

end

text \<open>\<^verbatim>\<open>jnp.sqrt\<close>.\<close>

fun fsqrt :: "num \<Rightarrow> num" where
  "fsqrt (Fin a) = (if a < 0 then NaN else Fin (sqrt a))"
| "fsqrt NaN = NaN"

text \<open>\<^verbatim>\<open>x ** n\<close> for a Python integer \<open>n\<close>.\<close>

fun fpowi :: "num \<Rightarrow> int \<Rightarrow> num" where
  "fpowi (Fin a) n =
     (if 0 \<le> n then Fin (a ^ nat n)
      else if a = 0 then NaN
      else Fin (1 / a ^ nat (- n)))"
| "fpowi NaN n = NaN"

text \<open>\<^verbatim>\<open>x ** y\<close> for a Python float \<open>y\<close>.\<close>

fun fpowr :: "num \<Rightarrow> real \<Rightarrow> num" where
  "fpowr (Fin a) y =
     (if 0 < a then Fin (a powr y)
      else if a = 0 then (if 0 < y then Fin 0 else if y = 0 then Fin 1 else NaN)
      else if y = of_int \<lfloor>y\<rfloor> then fpowi (Fin a) \<lfloor>y\<rfloor>
      else NaN)"
| "fpowr NaN y = NaN"

section \<open>Arrays\<close>

text \<open>
  An n-dimensional array is a scalar or a list of arrays of one dimension less;
  \<open>vec\<close> and \<open>mat\<close> build the arrays of one and two dimensions.
\<close>

datatype ndarray = Sc num | Arr "ndarray list"

definition vec :: "num list \<Rightarrow> ndarray" where
  "vec xs = Arr (map Sc xs)"

definition mat :: "num list list \<Rightarrow> ndarray" where
  "mat xss = Arr (map vec xss)"

fun is_Sc :: "ndarray \<Rightarrow> bool" where
  "is_Sc (Sc _) = True"
| "is_Sc (Arr _) = False"

fun the_Sc :: "ndarray \<Rightarrow> num" where
  "the_Sc (Sc x) = x"
| "the_Sc (Arr _) = NaN"

fun rank :: "ndarray \<Rightarrow> nat" where
  "rank (Sc _) = 0"
| "rank (Arr []) = 1"
| "rank (Arr (x # _)) = Suc (rank x)"

text \<open>An elementwise operation of one argument.\<close>

fun amap :: "(num \<Rightarrow> num) \<Rightarrow> ndarray \<Rightarrow> ndarray" where
  "amap f (Sc x) = Sc (f x)"
| "amap f (Arr xs) = Arr (map (amap f) xs)"

lemma size_in_list: "x \<in> set xs \<Longrightarrow> size (x::ndarray) < Suc (size_list size xs)"
  by (induction xs) auto

text \<open>
  An elementwise operation of two arguments of the same number of dimensions, by the
  broadcasting rule of numpy: two axes fit when their lengths are equal or one of them
  is 1, which is then stretched. Anything else raises, here \<open>None\<close>.
\<close>

function (sequential) bop_eq ::
  "(num \<Rightarrow> num \<Rightarrow> num) \<Rightarrow> ndarray \<Rightarrow> ndarray \<Rightarrow> ndarray option" where
  "bop_eq f (Sc a) (Sc b) = Some (Sc (f a b))"
| "bop_eq f (Arr xs) (Arr ys) =
     (if length xs = length ys
      then map_option Arr (those (map (\<lambda>(x, y). bop_eq f x y) (zip xs ys)))
      else (case xs of
              [x] \<Rightarrow> map_option Arr (those (map (\<lambda>y. bop_eq f x y) ys))
            | _ \<Rightarrow> (case ys of
                [y] \<Rightarrow> map_option Arr (those (map (\<lambda>x. bop_eq f x y) xs))
              | _ \<Rightarrow> None)))"
| "bop_eq f _ _ = None"
  by pat_completeness auto
termination
  by (relation "measure (\<lambda>(f, a, b). size a)")
     (auto dest!: set_zip_leftD size_in_list)

text \<open>The argument of fewer dimensions first gets leading axes of length 1.\<close>

definition expand_dims :: "nat \<Rightarrow> ndarray \<Rightarrow> ndarray" where
  "expand_dims n a = ((\<lambda>x. Arr [x]) ^^ n) a"

definition bop :: "(num \<Rightarrow> num \<Rightarrow> num) \<Rightarrow> ndarray \<Rightarrow> ndarray \<Rightarrow> ndarray option" where
  "bop f a b =
     bop_eq f (expand_dims (rank b - rank a) a) (expand_dims (rank a - rank b) b)"

text \<open>\<^verbatim>\<open>x.sum(axis=-1)\<close>: the sum along the last axis; a scalar has no axis.\<close>

fun asum_last :: "ndarray \<Rightarrow> ndarray option" where
  "asum_last (Sc x) = None"
| "asum_last (Arr xs) =
     (if list_all is_Sc xs then Some (Sc (sum_list (map the_Sc xs)))
      else map_option Arr (those (map asum_last xs)))"

text \<open>\<^verbatim>\<open>x.mean(axis=0)\<close>: the sum of the entries along the first axis, over their number.\<close>

fun asum0 :: "ndarray list \<Rightarrow> ndarray option" where
  "asum0 [] = Some (Sc 0)"
| "asum0 (x # xs) = fold (\<lambda>y acc. acc \<bind> (\<lambda>a. bop (+) a y)) xs (Some x)"

fun amean0 :: "ndarray \<Rightarrow> ndarray option" where
  "amean0 (Sc x) = None"
| "amean0 (Arr xs) = asum0 xs \<bind> (\<lambda>s. bop (/) s (Sc (Fin (real (length xs)))))"

subsection \<open>The operations on vectors and matrices\<close>

lemma amap_vec [simp]: "amap f (vec xs) = vec (map f xs)"
  by (simp add: vec_def)

lemma amap_mat [simp]: "amap f (mat xss) = mat (map (map f) xss)"
  by (simp add: mat_def)

lemma rank_vec [simp]: "rank (vec xs) = 1"
  by (cases xs) (simp_all add: vec_def)

lemma rank_mat [simp]: "xss \<noteq> [] \<Longrightarrow> rank (mat xss) = 2"
  by (cases xss) (simp_all add: mat_def)

lemma those_map_Some [simp]: "those (map (\<lambda>x. Some (f x)) xs) = Some (map f xs)"
  by (induction xs) simp_all

lemma those_eq_Some_map:
  "(\<And>x. x \<in> set xs \<Longrightarrow> f x = Some (g x)) \<Longrightarrow> those (map f xs) = Some (map g xs)"
  by (induction xs) simp_all

lemma bop_eq_scalars:
  "length xs = length ys \<Longrightarrow>
   those (map (\<lambda>(x, y). bop_eq f x y) (zip (map Sc xs) (map Sc ys)))
     = Some (map Sc (map2 f xs ys))"
  by (induction xs ys rule: list_induct2) simp_all

lemma bop_Sc_Sc [simp]: "bop f (Sc a) (Sc b) = Some (Sc (f a b))"
  by (simp add: bop_def expand_dims_def)

lemma bop_vec_vec:
  "length xs = length ys \<Longrightarrow> bop f (vec xs) (vec ys) = Some (vec (map2 f xs ys))"
  by (simp add: bop_def expand_dims_def) (simp add: vec_def bop_eq_scalars)

lemma bop_eq_stretch_right:
  "those (map (\<lambda>x. bop_eq f x (Sc b)) (map Sc xs)) = Some (map Sc (map (\<lambda>x. f x b) xs))"
  by (induction xs) simp_all

lemma bop_eq_stretch_left:
  "those (map (\<lambda>y. bop_eq f (Sc a) y) (map Sc ys)) = Some (map Sc (map (f a) ys))"
  by (induction ys) simp_all

lemma bop_vec_Sc: "bop f (vec xs) (Sc b) = Some (vec (map (\<lambda>x. f x b) xs))"
proof (cases xs)
  case Nil
  then show ?thesis by (simp add: bop_def expand_dims_def) (simp add: vec_def)
next
  case (Cons x xs')
  show ?thesis
  proof (cases xs')
    case Nil
    with Cons show ?thesis by (simp add: bop_def expand_dims_def) (simp add: vec_def)
  next
    case (Cons x' xs'')
    with \<open>xs = x # xs'\<close> show ?thesis
      using bop_eq_stretch_right [of f b xs]
      by (simp add: bop_def expand_dims_def) (simp add: vec_def)
  qed
qed

lemma bop_Sc_vec: "bop f (Sc a) (vec ys) = Some (vec (map (f a) ys))"
proof (cases ys)
  case Nil
  then show ?thesis by (simp add: bop_def expand_dims_def) (simp add: vec_def)
next
  case (Cons y ys')
  show ?thesis
  proof (cases ys')
    case Nil
    with Cons show ?thesis by (simp add: bop_def expand_dims_def) (simp add: vec_def)
  next
    case (Cons y' ys'')
    with \<open>ys = y # ys'\<close> show ?thesis
      using bop_eq_stretch_left [of f a ys]
      by (simp add: bop_def expand_dims_def) (simp add: vec_def)
  qed
qed

lemma asum_last_vec [simp]: "asum_last (vec xs) = Some (Sc (sum_list xs))"
proof -
  have "list_all is_Sc (map Sc xs)" by (induction xs) simp_all
  moreover have "map the_Sc (map Sc xs) = xs" by (induction xs) simp_all
  ultimately show ?thesis by (simp add: vec_def)
qed

lemma asum_last_mat: "xss \<noteq> [] \<Longrightarrow> asum_last (mat xss) = Some (vec (map sum_list xss))"
proof -
  assume ne: "xss \<noteq> []"
  then have "\<not> list_all is_Sc (map vec xss)"
    by (cases xss) (simp_all add: vec_def)
  moreover have "those (map asum_last (map vec xss)) = Some (map Sc (map sum_list xss))"
    by (induction xss) simp_all
  ultimately show ?thesis by (simp add: mat_def vec_def)
qed

lemma fold_bop_plus_vec:
  "\<forall>row \<in> set rows. length row = length acc \<Longrightarrow>
   fold (\<lambda>y a. a \<bind> (\<lambda>a. bop (+) a y)) (map vec rows) (Some (vec acc))
     = Some (vec (fold (\<lambda>row a. map2 (+) a row) rows acc))"
proof (induction rows arbitrary: acc)
  case Nil
  then show ?case by simp
next
  case (Cons row rows)
  then show ?case by (simp add: bop_vec_vec)
qed

lemma fold_map2_plus_length:
  "\<forall>row \<in> set rows. length row = length acc \<Longrightarrow>
   length (fold (\<lambda>row a. map2 (+) a row) rows acc) = length (acc :: num list)"
  by (induction rows arbitrary: acc) simp_all

lemma fold_map2_plus_nth:
  "\<forall>row \<in> set rows. length row = length acc \<Longrightarrow> j < length acc \<Longrightarrow>
   fold (\<lambda>row a. map2 (+) a row) rows acc ! j
     = sum_list (map (\<lambda>row. row ! j) (acc # rows) :: num list)"
proof (induction rows arbitrary: acc)
  case Nil
  then show ?case by simp
next
  case (Cons row rows)
  have "fold (\<lambda>row a. map2 (+) a row) (row # rows) acc ! j
          = sum_list (map (\<lambda>row. row ! j) (map2 (+) acc row # rows))"
    using Cons.prems Cons.IH [of "map2 (+) acc row"] by simp
  also have "\<dots> = sum_list (map (\<lambda>row. row ! j) (acc # row # rows))"
    using Cons.prems by (simp add: add.assoc)
  finally show ?case .
qed

lemma asum0_mat:
  assumes "xss \<noteq> []" and "\<forall>row \<in> set xss. length row = m"
  shows "asum0 (map vec xss) = Some (vec (map (\<lambda>j. sum_list (map (\<lambda>row. row ! j) xss)) [0..<m]))"
proof -
  obtain x rows where xss: "xss = x # rows"
    using assms(1) by (cases xss) auto
  have len: "\<forall>row \<in> set rows. length row = length x" and m: "length x = m"
    using assms(2) xss by auto
  have "fold (\<lambda>row a. map2 (+) a row) rows x
          = map (\<lambda>j. sum_list (map (\<lambda>row. row ! j) xss)) [0..<m]"
    by (rule nth_equalityI)
       (use len m xss in \<open>simp_all add: fold_map2_plus_length fold_map2_plus_nth\<close>)
  then show ?thesis
    using fold_bop_plus_vec [OF len] xss by simp
qed

lemma amean0_mat:
  assumes "xss \<noteq> []" and "\<forall>row \<in> set xss. length row = m"
  shows "amean0 (mat xss)
           = Some (vec (map (\<lambda>j. sum_list (map (\<lambda>row. row ! j) xss) / Fin (real (length xss)))
                          [0..<m]))"
  using asum0_mat [OF assms] by (simp add: mat_def bop_vec_Sc comp_def)

section \<open>Data dictionaries\<close>

text \<open>
  The compute functions pass a dictionary \<^verbatim>\<open>data\<close> from quantity names to arrays. It
  is a list of pairs in insertion order with distinct keys; \<^verbatim>\<open>data[k]\<close> is
  \<open>map_of data k\<close>, a \<^verbatim>\<open>KeyError\<close> is \<open>None\<close>, and \<^verbatim>\<open>data[k] = v\<close> is
  \<open>AList.update k v data\<close>.
\<close>

type_synonym dict = "(string \<times> ndarray) list"

section \<open>External collaborators\<close>

text \<open>
  Modelled from the spec: \<^verbatim>\<open>desc.utils.safediv\<close>, imported by the compute module, is
  not part of the sources at hand. The spec describes it as "safe-divide (zero when I is
  zero)": the quotient, and zero where the divisor is zero.
\<close>

definition safediv_num :: "num \<Rightarrow> num \<Rightarrow> num" where
  "safediv_num a b = (if b = Fin 0 then Fin 0 else a / b)"

definition safediv :: "ndarray \<Rightarrow> ndarray \<Rightarrow> ndarray option" where
  "safediv a b = bop safediv_num a b"

text \<open>
  Modelled from the spec: \<^verbatim>\<open>desc.backend.imap\<close> is the "memory-bounded mapped
  evaluation (a sequential-but-vectorized sweep)" of the spec: the function is applied to
  every slice of the dictionary along the leading axis of its arrays, which must agree
  in length, and the results are stacked.
\<close>

fun lead_len :: "dict \<Rightarrow> nat option" where
  "lead_len [] = None"
| "lead_len ((k, Sc x) # kvs) = None"
| "lead_len ((k, Arr xs) # kvs) =
     (if list_all (\<lambda>(k', v). case v of Sc _ \<Rightarrow> False | Arr ys \<Rightarrow> length ys = length xs) kvs
      then Some (length xs) else None)"

fun aslice :: "nat \<Rightarrow> ndarray \<Rightarrow> ndarray" where
  "aslice i (Arr xs) = xs ! i"
| "aslice i (Sc x) = Sc x"

definition slice :: "nat \<Rightarrow> dict \<Rightarrow> dict" where
  "slice i xs = map (\<lambda>(k, v). (k, aslice i v)) xs"

definition imap :: "(dict \<Rightarrow> ndarray option) \<Rightarrow> dict \<Rightarrow> ndarray option" where
  "imap f xs =
     lead_len xs \<bind> (\<lambda>n. map_option Arr (those (map (\<lambda>i. f (slice i xs)) [0..<n])))"

text \<open>
  The grid is an external collaborator. \<open>inverse_rho_idx\<close> is the index table of the
  spec, "mapping each full grid point to its owning surface index"; \<open>compress\<close> (with its
  surface label) and \<open>meshgrid_reshape\<close> (with its axis order) are the grid's methods,
  whose results are not interpreted here.
\<close>

record grid =
  num_rho :: nat
  num_alpha :: nat
  num_zeta :: nat
  nodes :: ndarray
  inverse_rho_idx :: "nat list"
  compress :: "string \<Rightarrow> ndarray \<Rightarrow> ndarray option"
  meshgrid_reshape :: "ndarray \<Rightarrow> string \<Rightarrow> ndarray option"

text \<open>
  Modelled from the spec: \<^verbatim>\<open>grid.expand\<close> is "gather via the same table": one value per
  surface goes in, and every grid point gets the value of the surface that owns it.
\<close>

definition expand :: "grid \<Rightarrow> ndarray \<Rightarrow> ndarray option" where
  "expand g x =
     (case x of
        Sc _ \<Rightarrow> None
      | Arr xs \<Rightarrow>
          if length xs = num_rho g \<and> list_all (\<lambda>r. r < num_rho g) (inverse_rho_idx g)
          then Some (Arr (map (\<lambda>r. xs ! r) (inverse_rho_idx g)))
          else None)"

text \<open>\<^verbatim>\<open>x[:, j]\<close> for an array of two dimensions.\<close>

definition column :: "nat \<Rightarrow> ndarray \<Rightarrow> ndarray option" where
  "column j x =
     (case x of
        Sc _ \<Rightarrow> None
      | Arr rows \<Rightarrow>
          map_option Arr (those (map (\<lambda>row. case row of
              Sc _ \<Rightarrow> None
            | Arr cs \<Rightarrow> if j < length cs then Some (cs ! j) else None) rows)))"

text \<open>
  The class \<^verbatim>\<open>Bounce1D\<close> of the bounce integrals is an external collaborator as well.
  \<open>integrate B grid data quad integrands pitch_inv name num_well batch\<close> stands for
  \<^verbatim>\<open>bounce = Bounce1D(grid, data, quad, automorphism=None, is_reshaped=True)\<close> followed by
  \<^verbatim>\<open>bounce.integrate(integrands, pitch_inv, data, name,
  points=bounce.points(pitch_inv, num_well=num_well), batch=batch)\<close>.
  An integrand takes the interpolated data, the field strength and the pitch.
\<close>

type_synonym quadrature = "ndarray \<times> ndarray"

type_synonym integrand = "dict \<Rightarrow> ndarray \<Rightarrow> ndarray \<Rightarrow> ndarray option"

record bounce1d =
  get_pitch_inv_quad :: "ndarray \<Rightarrow> ndarray \<Rightarrow> nat \<Rightarrow> bool \<Rightarrow> (ndarray \<times> ndarray) option"
  required_names :: "string list"
  reshape_data :: "grid \<Rightarrow> ndarray \<Rightarrow> ndarray option"
  integrate :: "grid \<Rightarrow> dict \<Rightarrow> quadrature \<Rightarrow> integrand list \<Rightarrow> ndarray \<Rightarrow> string
                  \<Rightarrow> nat option \<Rightarrow> bool \<Rightarrow> ndarray list option"

record transform =
  source_grid :: grid

type_synonym transforms = "(string \<times> transform) list"

section \<open>The streaming reduction over surfaces and field lines\<close>

text \<open>\<^verbatim>\<open>_alpha_mean\<close>: \<^verbatim>\<open>f.mean(axis=0)\<close>.\<close>

definition alpha_mean :: "ndarray \<Rightarrow> ndarray option" where
  "alpha_mean f = amean0 f"

text \<open>
  \<^verbatim>\<open>_compute\<close>. The inner function \<^verbatim>\<open>foreach_rho\<close> stores the pitch quadrature in the
  dictionary it is given and maps \<open>fn\<close> over it. \<open>copy_names\<close> is the loop
  \<^verbatim>\<open>for name in Bounce1D.required_names: fun_data[name] = data[name]\<close> and \<open>reshape_all\<close>
  the loop \<^verbatim>\<open>for name in fun_data: fun_data[name] = Bounce1D.reshape_data(grid, fun_data[name])\<close>.
  The dictionary \<^verbatim>\<open>fun_data\<close> is modified in place; the model returns it next to the
  result.
\<close>

definition foreach_rho ::
  "(dict \<Rightarrow> ndarray option) \<Rightarrow> ndarray \<Rightarrow> ndarray \<Rightarrow> dict \<Rightarrow> ndarray option" where
  "foreach_rho fn pitch_inv pitch_inv_weight x =
     imap fn (AList.update ''pitch_inv weight'' pitch_inv_weight
               (AList.update ''pitch_inv'' pitch_inv x))"

fun copy_names :: "string list \<Rightarrow> dict \<Rightarrow> dict \<Rightarrow> dict option" where
  "copy_names [] data fun_data = Some fun_data"
| "copy_names (name # names) data fun_data =
     (case map_of data name of
        None \<Rightarrow> None
      | Some v \<Rightarrow> copy_names names data (AList.update name v fun_data))"

definition reshape_all :: "bounce1d \<Rightarrow> grid \<Rightarrow> dict \<Rightarrow> dict option" where
  "reshape_all B g fun_data =
     those (map (\<lambda>(name, v). map_option (Pair name) (reshape_data B g v)) fun_data)"

definition compute ::
  "bounce1d \<Rightarrow> (dict \<Rightarrow> ndarray option) \<Rightarrow> dict \<Rightarrow> dict \<Rightarrow> grid \<Rightarrow> nat \<Rightarrow> bool \<Rightarrow> bool
     \<Rightarrow> (dict \<times> ndarray) option" where
  "compute B fn fun_data data g num_pitch simp reduce = do {
     bmin \<leftarrow> map_of data ''min_tz |B|'';
     cmin \<leftarrow> compress g ''rho'' bmin;
     bmax \<leftarrow> map_of data ''max_tz |B|'';
     cmax \<leftarrow> compress g ''rho'' bmax;
     (pitch_inv, pitch_inv_weight) \<leftarrow> get_pitch_inv_quad B cmin cmax num_pitch simp;
     fun_data1 \<leftarrow> copy_names (required_names B) data fun_data;
     fun_data2 \<leftarrow> reshape_all B g fun_data1;
     out \<leftarrow> imap (foreach_rho fn pitch_inv pitch_inv_weight) fun_data2;
     if reduce then do {
       m \<leftarrow> alpha_mean out;
       e \<leftarrow> expand g m;
       Some (fun_data2, e)
     } else Some (fun_data2, out)
   }"

section \<open>The effective ripple kernel\<close>

text \<open>The integrands \<^verbatim>\<open>dH\<close> and \<^verbatim>\<open>dI\<close> of \<^verbatim>\<open>_epsilon_32\<close>.\<close>

definition dH :: integrand where
  "dH data B pitch = do {
     pB \<leftarrow> bop (*) pitch B;
     d \<leftarrow> bop (-) (Sc (Fin 1)) pB;
     q \<leftarrow> bop (/) (Sc (Fin 4)) pB;
     w \<leftarrow> bop (-) q (Sc (Fin 1));
     t \<leftarrow> bop (*) (amap fsqrt (amap abs d)) w;
     gk \<leftarrow> map_of data ''|grad(rho)|*kappa_g'';
     u \<leftarrow> bop (*) t gk;
     bop (/) u B
   }"

definition dI :: integrand where
  "dI data B pitch = do {
     pB \<leftarrow> bop (*) pitch B;
     d \<leftarrow> bop (-) (Sc (Fin 1)) pB;
     bop (/) (amap fsqrt (amap abs d)) B
   }"

text \<open>
  The inner function \<^verbatim>\<open>eps_32\<close>, closed over the grid, the quadrature and the keyword
  arguments \<^verbatim>\<open>num_well\<close> and \<^verbatim>\<open>batch\<close>.
\<close>

definition eps_32 ::
  "bounce1d \<Rightarrow> grid \<Rightarrow> quadrature \<Rightarrow> nat option \<Rightarrow> bool \<Rightarrow> dict \<Rightarrow> ndarray option" where
  "eps_32 B g quad num_well batch data = do {
     pitch_inv \<leftarrow> map_of data ''pitch_inv'';
     HI \<leftarrow> integrate B g data quad [dH, dI] pitch_inv ''|grad(rho)|*kappa_g'' num_well batch;
     (H, I) \<leftarrow> (case HI of [H, I] \<Rightarrow> Some (H, I) | _ \<Rightarrow> None);
     q \<leftarrow> safediv (amap (\<lambda>x. fpowi x 2) H) I;
     s \<leftarrow> asum_last q;
     t \<leftarrow> bop (*) s (amap (\<lambda>x. fpowi x (- 3)) pitch_inv);
     w \<leftarrow> map_of data ''pitch_inv weight'';
     u \<leftarrow> bop (*) t w;
     asum_last u
   }"

text \<open>
  \<^verbatim>\<open>_epsilon_32\<close>. The keyword arguments are read with their defaults; \<open>chebgauss2\<close> is
  the quadrature rule of \<^verbatim>\<open>desc.integrals.quad_utils\<close>.
\<close>

record kwargs =
  kw_quad :: "quadrature option"
  kw_num_quad :: "nat option"
  kw_num_pitch :: "nat option"
  kw_num_well :: "nat option"
  kw_batch :: "bool option"

definition epsilon_32_value ::
  "bounce1d \<Rightarrow> (nat \<Rightarrow> quadrature) \<Rightarrow> transforms \<Rightarrow> dict \<Rightarrow> kwargs \<Rightarrow> ndarray option" where
  "epsilon_32_value B chebgauss2 transforms data kwargs = do {
     let quad = (case kw_quad kwargs of
                   Some q \<Rightarrow> q
                 | None \<Rightarrow> chebgauss2 (case kw_num_quad kwargs of Some n \<Rightarrow> n | None \<Rightarrow> 32));
     let num_well = kw_num_well kwargs;
     let batch = (case kw_batch kwargs of Some b \<Rightarrow> b | None \<Rightarrow> True);
     tr \<leftarrow> map_of transforms ''grid'';
     let g = source_grid tr;
     B0 \<leftarrow> map_of data ''max_tz |B|'';
     R0 \<leftarrow> map_of data ''R0'';
     B0R0 \<leftarrow> bop (*) B0 R0;
     gr \<leftarrow> map_of data ''<|grad(rho)|>'';
     ratio \<leftarrow> bop (/) B0R0 gr;
     pre \<leftarrow> bop (*) (Sc (Fin pi / (Fin 8 * fpowr (Fin 2) (1 / 2))))
                    (amap (\<lambda>x. fpowi x 2) ratio);
     grad_rho \<leftarrow> map_of data ''|grad(rho)|'';
     kappa_g \<leftarrow> map_of data ''kappa_g'';
     gk \<leftarrow> bop (*) grad_rho kappa_g;
     (fun_data, c) \<leftarrow> compute B (eps_32 B g quad num_well batch)
                        [(''|grad(rho)|*kappa_g'', gk)] data g
                        (case kw_num_pitch kwargs of Some n \<Rightarrow> n | None \<Rightarrow> 50) False True;
     t \<leftarrow> bop (*) pre c;
     L \<leftarrow> map_of data ''fieldline length'';
     bop (/) t L
   }"

definition epsilon_32 ::
  "bounce1d \<Rightarrow> (nat \<Rightarrow> quadrature) \<Rightarrow> transforms \<Rightarrow> dict \<Rightarrow> kwargs \<Rightarrow> dict option" where
  "epsilon_32 B chebgauss2 transforms data kwargs =
     map_option (\<lambda>v. AList.update ''effective ripple 3/2'' v data)
       (epsilon_32_value B chebgauss2 transforms data kwargs)"

section \<open>The field line length\<close>

text \<open>
  \<^verbatim>\<open>quadax.simpson\<close> is a library function: \<open>simpson y x\<close> is its rule for the samples \<open>y\<close>
  at the nodes \<open>x\<close> of one axis, and \<open>along_last\<close> applies it along the last axis
  (\<^verbatim>\<open>axis=-1\<close>).
\<close>

fun along_last :: "(num list \<Rightarrow> num) \<Rightarrow> ndarray \<Rightarrow> ndarray option" where
  "along_last rule (Sc x) = None"
| "along_last rule (Arr xs) =
     (if list_all is_Sc xs then Some (Sc (rule (map the_Sc xs)))
      else map_option Arr (those (map (along_last rule) xs)))"

definition fieldline_length ::
  "(num list \<Rightarrow> num list \<Rightarrow> num) \<Rightarrow> dict \<Rightarrow> transforms \<Rightarrow> dict option" where
  "fieldline_length simpson data transforms = do {
     tr \<leftarrow> map_of transforms ''grid'';
     let g = source_grid tr;
     Bz \<leftarrow> map_of data ''B^zeta'';
     y0 \<leftarrow> bop (/) (Sc (Fin 1)) Bz;
     y \<leftarrow> meshgrid_reshape g y0 ''arz'';
     z \<leftarrow> column 2 (nodes g);
     x \<leftarrow> compress g ''zeta'' z;
     xs \<leftarrow> (case x of Sc _ \<Rightarrow> None
            | Arr zs \<Rightarrow> if list_all is_Sc zs then Some (map the_Sc zs) else None);
     L_ra \<leftarrow> along_last (\<lambda>ys. simpson ys xs) y;
     m \<leftarrow> alpha_mean L_ra;
     e \<leftarrow> expand g (amap abs m);
     Some (AList.update ''fieldline length'' e data)
   }"

section \<open>Properties of the mapped evaluation\<close>

lemma map2_nth:
  "length xs = length ys \<Longrightarrow> map2 f xs ys = map (\<lambda>i. f (xs ! i) (ys ! i)) [0..<length xs]"
  by (rule nth_equalityI) auto

lemma bop_eq_rows:
  "length xss = length yss \<Longrightarrow> \<forall>i<length xss. length (xss ! i) = length (yss ! i) \<Longrightarrow>
   those (map (\<lambda>(x, y). bop_eq f x y) (zip (map vec xss) (map vec yss)))
     = Some (map vec (map2 (map2 f) xss yss))"
proof (induction xss yss rule: list_induct2)
  case Nil
  then show ?case by simp
next
  case (Cons x xs y ys)
  have "length x = length y"
    using Cons.prems by auto
  then have "bop_eq f (vec x) (vec y) = Some (vec (map2 f x y))"
    by (simp add: vec_def bop_eq_scalars)
  moreover have "\<forall>i<length xs. length (xs ! i) = length (ys ! i)"
    using Cons.prems by auto
  ultimately show ?case
    using Cons.IH by simp
qed

lemma bop_mat_mat:
  assumes "xss \<noteq> []" and "length xss = length yss"
    and "\<forall>i<length xss. length (xss ! i) = length (yss ! i)"
  shows "bop f (mat xss) (mat yss) = Some (mat (map2 (map2 f) xss yss))"
proof -
  have "yss \<noteq> []"
    using assms(1,2) by auto
  then show ?thesis
    using assms bop_eq_rows [OF assms(2,3), of f]
    by (simp add: bop_def expand_dims_def) (simp add: mat_def)
qed

lemma those_Some_nth:
  "those xs = Some ys \<Longrightarrow> length ys = length xs \<and> (\<forall>i<length xs. xs ! i = Some (ys ! i))"
proof (induction xs arbitrary: ys)
  case Nil
  then show ?case by simp
next
  case (Cons x xs)
  then show ?case
    by (auto split: option.splits simp: nth_Cons split: nat.splits)
qed

lemma lead_len_Some_iff:
  "lead_len xs = Some n \<longleftrightarrow>
     xs \<noteq> [] \<and> (\<forall>(k, v) \<in> set xs. \<exists>ys. v = Arr ys \<and> length ys = n)"
proof (cases xs)
  case Nil
  then show ?thesis by simp
next
  case (Cons kv kvs)
  obtain k v where kv: "kv = (k, v)" by (cases kv)
  show ?thesis
  proof (cases v)
    case (Sc x)
    then show ?thesis using Cons kv by auto
  next
    case (Arr ys)
    have "list_all (\<lambda>(k', v). case v of Sc _ \<Rightarrow> False | Arr zs \<Rightarrow> length zs = length ys) kvs
            \<longleftrightarrow> (\<forall>(k', v) \<in> set kvs. \<exists>zs. v = Arr zs \<and> length zs = length ys)"
      unfolding list_all_iff
      by (intro ball_cong refl) (auto split: ndarray.splits)
    then show ?thesis
      using Cons kv Arr by auto
  qed
qed

lemma imap_value:
  assumes "lead_len xs = Some n" and "\<And>i. i < n \<Longrightarrow> f (slice i xs) = Some (h i)"
  shows "imap f xs = Some (Arr (map h [0..<n]))"
proof -
  have "those (map (\<lambda>i. f (slice i xs)) [0..<n]) = Some (map h [0..<n])"
    by (rule those_eq_Some_map) (use assms(2) in simp)
  then show ?thesis
    using assms(1) by (simp add: imap_def)
qed

lemma imap_Some:
  assumes "imap f xs = Some out"
  shows "\<exists>n ys. lead_len xs = Some n \<and> out = Arr ys \<and> length ys = n
           \<and> (\<forall>i<n. f (slice i xs) = Some (ys ! i))"
proof -
  from assms obtain n ys where n: "lead_len xs = Some n"
    and ys: "those (map (\<lambda>i. f (slice i xs)) [0..<n]) = Some ys" and out: "out = Arr ys"
    by (auto simp: imap_def bind_eq_Some_conv)
  from those_Some_nth [OF ys] have "length ys = n" and "\<forall>i<n. f (slice i xs) = Some (ys ! i)"
    by auto
  with n out show ?thesis by blast
qed

section \<open>The value of the kernel on one field line\<close>

lemma map2_upt:
  "length ys = n \<Longrightarrow> map2 f (map h [0..<n]) ys = map (\<lambda>i. f (h i) (ys ! i)) [0..<n]"
  by (rule nth_equalityI) auto

lemma map2_upt_map:
  "length ys = n \<Longrightarrow>
   map2 f (map h [0..<n]) (map k ys) = map (\<lambda>i. f (h i) (k (ys ! i))) [0..<n]"
  by (rule nth_equalityI) auto

lemma eps_32_value:
  assumes pitch: "map_of x ''pitch_inv'' = Some (vec ps)"
    and weight: "map_of x ''pitch_inv weight'' = Some (vec ws)"
    and integ: "integrate B g x quad [dH, dI] (vec ps) ''|grad(rho)|*kappa_g'' num_well batch
                  = Some [mat H, mat I]"
    and ne: "ps \<noteq> []"
    and lens: "length H = length ps" "length I = length ps" "length ws = length ps"
    and wells: "\<forall>p<length ps. length (I ! p) = length (H ! p)"
  shows "eps_32 B g quad num_well batch x
           = Some (Sc (\<Sum>p\<leftarrow>[0..<length ps].
                 (\<Sum>j\<leftarrow>[0..<length (H ! p)]. safediv_num (fpowi (H ! p ! j) 2) (I ! p ! j))
                   * fpowi (ps ! p) (- 3) * ws ! p))"
proof -
  let ?H2 = "map (map (\<lambda>x. fpowi x 2)) H"
  let ?q = "map2 (map2 safediv_num) ?H2 I"
  let ?s = "\<lambda>p. \<Sum>j\<leftarrow>[0..<length (H ! p)]. safediv_num (fpowi (H ! p ! j) 2) (I ! p ! j)"
  have Hne: "?H2 \<noteq> []"
    using ne lens by auto
  have q: "safediv (amap (\<lambda>x. fpowi x 2) (mat H)) (mat I) = Some (mat ?q)"
    unfolding safediv_def amap_mat
    by (rule bop_mat_mat) (use Hne lens wells in auto)
  have qne: "?q \<noteq> []"
    using ne lens by auto
  have rows: "map sum_list ?q = map ?s [0..<length ps]"
  proof (rule nth_equalityI)
    show "length (map sum_list ?q) = length (map ?s [0..<length ps])"
      using lens by simp
  next
    fix p assume "p < length (map sum_list ?q)"
    then have p: "p < length ps"
      using lens by simp
    then have "length (H ! p) = length (I ! p)"
      using wells by simp
    then have "map2 safediv_num (map (\<lambda>x. fpowi x 2) (H ! p)) (I ! p)
                 = map (\<lambda>j. safediv_num (fpowi (H ! p ! j) 2) (I ! p ! j)) [0..<length (H ! p)]"
      by (simp add: map2_nth)
    then show "map sum_list ?q ! p = map ?s [0..<length ps] ! p"
      using p lens by simp
  qed
  have s: "asum_last (mat ?q) = Some (vec (map ?s [0..<length ps]))"
    using asum_last_mat [OF qne] rows by simp
  have t: "bop (*) (vec (map ?s [0..<length ps])) (amap (\<lambda>x. fpowi x (- 3)) (vec ps))
             = Some (vec (map (\<lambda>p. ?s p * fpowi (ps ! p) (- 3)) [0..<length ps]))"
    by (simp add: bop_vec_vec map2_upt_map)
  have u: "bop (*) (vec (map (\<lambda>p. ?s p * fpowi (ps ! p) (- 3)) [0..<length ps])) (vec ws)
             = Some (vec (map (\<lambda>p. ?s p * fpowi (ps ! p) (- 3) * ws ! p) [0..<length ps]))"
    using lens by (simp add: bop_vec_vec map2_upt)
  show ?thesis
    unfolding eps_32_def
    by (simp only: pitch weight integ q s t u bind.bind_lunit list.case prod.case asum_last_vec)
qed

section \<open>The value of the reduction\<close>

text \<open>
  The dictionary that \<open>fn\<close> receives for the slice \<open>a\<close> of the outer sweep and the slice
  \<open>r\<close> of the inner one: \<open>foreach_rho\<close> stores the quadrature in slice \<open>a\<close> of the
  reshaped data, and the inner sweep cuts slice \<open>r\<close> out of every entry, the quadrature
  included.
\<close>

definition fieldline_data :: "ndarray \<Rightarrow> ndarray \<Rightarrow> dict \<Rightarrow> nat \<Rightarrow> nat \<Rightarrow> dict" where
  "fieldline_data pitch_inv pitch_inv_weight fun_data a r =
     slice r (AList.update ''pitch_inv weight'' pitch_inv_weight
               (AList.update ''pitch_inv'' pitch_inv (slice a fun_data)))"

lemma map_of_slice:
  "map_of (slice i xs) k = map_option (aslice i) (map_of xs k)"
  by (induction xs) (auto simp: slice_def)

lemma fieldline_data_pitch_inv:
  "map_of (fieldline_data P W fd a r) ''pitch_inv'' = Some (aslice r P)"
  by (simp add: fieldline_data_def map_of_slice update_conv')

lemma fieldline_data_weight:
  "map_of (fieldline_data P W fd a r) ''pitch_inv weight'' = Some (aslice r W)"
  by (simp add: fieldline_data_def map_of_slice update_conv')

lemma fieldline_data_other:
  "k \<noteq> ''pitch_inv'' \<Longrightarrow> k \<noteq> ''pitch_inv weight'' \<Longrightarrow>
   map_of (fieldline_data P W fd a r) k = map_option (aslice r \<circ> aslice a) (map_of fd k)"
  by (simp add: fieldline_data_def map_of_slice update_conv' option.map_comp)

lemma compute_out:
  assumes bmin: "map_of data ''min_tz |B|'' = Some bmin"
    and cmin: "compress g ''rho'' bmin = Some cmin"
    and bmax: "map_of data ''max_tz |B|'' = Some bmax"
    and cmax: "compress g ''rho'' bmax = Some cmax"
    and quad: "get_pitch_inv_quad B cmin cmax num_pitch simp = Some (P, W)"
    and copy: "copy_names (required_names B) data fun_data = Some fd1"
    and reshape: "reshape_all B g fd1 = Some fd2"
    and outer: "lead_len fd2 = Some na"
    and inner: "\<And>a. a < na \<Longrightarrow>
                  lead_len (AList.update ''pitch_inv weight'' W
                             (AList.update ''pitch_inv'' P (slice a fd2))) = Some nr"
    and vals: "\<And>a r. a < na \<Longrightarrow> r < nr \<Longrightarrow> fn (fieldline_data P W fd2 a r) = Some (Sc (E a r))"
  shows "compute B fn fun_data data g num_pitch simp False
           = Some (fd2, mat (map (\<lambda>a. map (E a) [0..<nr]) [0..<na]))"
proof -
  have row: "foreach_rho fn P W (slice a fd2) = Some (vec (map (E a) [0..<nr]))" if "a < na" for a
  proof -
    have "imap fn (AList.update ''pitch_inv weight'' W
                    (AList.update ''pitch_inv'' P (slice a fd2)))
            = Some (Arr (map (\<lambda>r. Sc (E a r)) [0..<nr]))"
      by (rule imap_value [OF inner [OF that]])
         (use vals [OF that] in \<open>simp add: fieldline_data_def\<close>)
    then show ?thesis
      by (simp add: foreach_rho_def vec_def comp_def)
  qed
  have "imap (foreach_rho fn P W) fd2 = Some (Arr (map (\<lambda>a. vec (map (E a) [0..<nr])) [0..<na]))"
    by (rule imap_value [OF outer]) (use row in simp)
  then have out: "imap (foreach_rho fn P W) fd2 = Some (mat (map (\<lambda>a. map (E a) [0..<nr]) [0..<na]))"
    by (simp add: mat_def comp_def)
  show ?thesis
    unfolding compute_def
    by (simp add: bmin cmin bmax cmax quad copy reshape out)
qed

lemma expand_vec:
  assumes "length xs = num_rho g" and "list_all (\<lambda>r. r < num_rho g) (inverse_rho_idx g)"
  shows "expand g (vec xs) = Some (vec (map (\<lambda>r. xs ! r) (inverse_rho_idx g)))"
proof -
  have "map (\<lambda>r. map Sc xs ! r) (inverse_rho_idx g) = map Sc (map (\<lambda>r. xs ! r) (inverse_rho_idx g))"
    using assms by (auto simp: list_all_iff)
  then show ?thesis
    using assms by (simp add: expand_def vec_def)
qed

lemma compute_reduce:
  assumes out: "compute B fn fun_data data g num_pitch simp False = Some (fd2, mat X)"
    and ne: "X \<noteq> []"
    and rows: "\<forall>row \<in> set X. length row = num_rho g"
    and idx: "list_all (\<lambda>r. r < num_rho g) (inverse_rho_idx g)"
  shows "compute B fn fun_data data g num_pitch simp True
           = Some (fd2, vec (map (\<lambda>r. sum_list (map (\<lambda>row. row ! r) X) / Fin (real (length X)))
                              (inverse_rho_idx g)))"
proof -
  let ?m = "map (\<lambda>j. sum_list (map (\<lambda>row. row ! j) X) / Fin (real (length X))) [0..<num_rho g]"
  have mean: "alpha_mean (mat X) = Some (vec ?m)"
    unfolding alpha_mean_def by (rule amean0_mat [OF ne rows])
  have "expand g (vec ?m) = Some (vec (map (\<lambda>r. ?m ! r) (inverse_rho_idx g)))"
    by (rule expand_vec) (use idx in simp_all)
  also have "map (\<lambda>r. ?m ! r) (inverse_rho_idx g)
               = map (\<lambda>r. sum_list (map (\<lambda>row. row ! r) X) / Fin (real (length X)))
                   (inverse_rho_idx g)"
    using idx by (auto simp: list_all_iff)
  finally have ex: "expand g (vec ?m)
      = Some (vec (map (\<lambda>r. sum_list (map (\<lambda>row. row ! r) X) / Fin (real (length X)))
                     (inverse_rho_idx g)))" .
  from out show ?thesis
    unfolding compute_def
    by (auto simp: bind_eq_Some_conv mean ex split: prod.splits)
qed

section \<open>The value of the field line length\<close>

lemma along_last_vec [simp]: "along_last rule (vec xs) = Some (Sc (rule xs))"
proof -
  have "list_all is_Sc (map Sc xs)" by (induction xs) simp_all
  moreover have "map the_Sc (map Sc xs) = xs" by (induction xs) simp_all
  ultimately show ?thesis by (simp add: vec_def)
qed

lemma along_last_mat:
  "xss \<noteq> [] \<Longrightarrow> along_last rule (mat xss) = Some (vec (map rule xss))"
proof -
  assume ne: "xss \<noteq> []"
  then have "\<not> list_all is_Sc (map vec xss)"
    by (cases xss) (simp_all add: vec_def)
  moreover have "those (map (along_last rule) (map vec xss)) = Some (map Sc (map rule xss))"
    by (induction xss) simp_all
  ultimately show ?thesis by (simp add: mat_def vec_def)
qed

lemma along_last_mats:
  assumes "Y \<noteq> []" and "\<forall>ya \<in> set Y. ya \<noteq> []"
  shows "along_last rule (Arr (map mat Y)) = Some (mat (map (map rule) Y))"
proof -
  have "\<not> list_all is_Sc (map mat Y)"
    using assms(1) by (cases Y) (simp_all add: mat_def)
  moreover have "those (map (along_last rule) (map mat Y)) = Some (map vec (map (map rule) Y))"
    using assms(2) by (induction Y) (simp_all add: along_last_mat)
  ultimately show ?thesis by (simp add: mat_def)
qed

lemma fieldline_length_value:
  assumes tr: "map_of transforms ''grid'' = Some tr"
    and Bz: "map_of data ''B^zeta'' = Some (vec bz)"
    and reshape: "meshgrid_reshape (source_grid tr) (vec (map (\<lambda>b. Fin 1 / b) bz)) ''arz''
                    = Some (Arr (map mat Y))"
    and col: "column 2 (nodes (source_grid tr)) = Some z"
    and zeta: "compress (source_grid tr) ''zeta'' z = Some (vec zs)"
    and ne: "Y \<noteq> []"
    and rows: "\<forall>ya \<in> set Y. length ya = num_rho (source_grid tr)"
    and surf: "0 < num_rho (source_grid tr)"
    and idx: "list_all (\<lambda>r. r < num_rho (source_grid tr)) (inverse_rho_idx (source_grid tr))"
  shows "fieldline_length simpson data transforms
           = Some (AList.update ''fieldline length''
               (vec (map (\<lambda>r. \<bar>sum_list (map (\<lambda>ya. simpson (ya ! r) zs) Y) / Fin (real (length Y))\<bar>)
                       (inverse_rho_idx (source_grid tr))))
               data)"
proof -
  let ?g = "source_grid tr"
  let ?L = "map (map (\<lambda>ys. simpson ys zs)) Y"
  let ?m = "map (\<lambda>j. sum_list (map (\<lambda>row. row ! j) ?L) / Fin (real (length ?L))) [0..<num_rho ?g]"
  have y0: "bop (/) (Sc (Fin 1)) (vec bz) = Some (vec (map (\<lambda>b. Fin 1 / b) bz))"
    by (simp add: bop_Sc_vec)
  have xs: "(case vec zs of Sc _ \<Rightarrow> None
             | Arr ws \<Rightarrow> if list_all is_Sc ws then Some (map the_Sc ws) else None) = Some zs"
  proof -
    have "list_all is_Sc (map Sc zs)" by (induction zs) simp_all
    moreover have "map the_Sc (map Sc zs) = zs" by (induction zs) simp_all
    ultimately show ?thesis by (simp add: vec_def)
  qed
  have L: "along_last (\<lambda>ys. simpson ys zs) (Arr (map mat Y)) = Some (mat ?L)"
    by (rule along_last_mats) (use ne rows surf in auto)
  have mean: "alpha_mean (mat ?L) = Some (vec ?m)"
    unfolding alpha_mean_def
    by (rule amean0_mat) (use ne rows in auto)
  have "expand ?g (amap abs (vec ?m)) = Some (vec (map (\<lambda>r. map abs ?m ! r) (inverse_rho_idx ?g)))"
    unfolding amap_vec by (rule expand_vec) (use idx in simp_all)
  also have "map (\<lambda>r. map abs ?m ! r) (inverse_rho_idx ?g)
      = map (\<lambda>r. \<bar>sum_list (map (\<lambda>ya. simpson (ya ! r) zs) Y) / Fin (real (length Y))\<bar>)
          (inverse_rho_idx ?g)"
  proof (rule map_cong [OF refl])
    fix r assume "r \<in> set (inverse_rho_idx ?g)"
    then have r: "r < num_rho ?g"
      using idx by (auto simp: list_all_iff)
    have cols: "map (\<lambda>row. row ! r) ?L = map (\<lambda>ya. simpson (ya ! r) zs) Y"
      using rows r by (auto simp: comp_def)
    have "map abs ?m ! r = \<bar>sum_list (map (\<lambda>row. row ! r) ?L) / Fin (real (length ?L))\<bar>"
      using r by simp
    then show "map abs ?m ! r = \<bar>sum_list (map (\<lambda>ya. simpson (ya ! r) zs) Y) / Fin (real (length Y))\<bar>"
      by (simp only: cols length_map)
  qed
  finally have ex: "expand ?g (amap abs (vec ?m))
      = Some (vec (map (\<lambda>r. \<bar>sum_list (map (\<lambda>ya. simpson (ya ! r) zs) Y) / Fin (real (length Y))\<bar>)
                     (inverse_rho_idx ?g)))" .
  show ?thesis
    unfolding fieldline_length_def
    by (simp only: tr Bz y0 reshape col zeta xs L mean ex bind.bind_lunit Let_def)
qed

section \<open>The value of the stored quantity\<close>

lemma set_update_subset: "set (AList.update k v xs) \<subseteq> insert (k, v) (set xs)"
  by (induction xs) auto

lemma lead_len_update:
  assumes "lead_len xs = Some n" and "length ys = n"
  shows "lead_len (AList.update k (Arr ys) xs) = Some n"
proof -
  have "AList.update k (Arr ys) xs \<noteq> []"
    by (cases xs) auto
  moreover have "\<forall>(k', v) \<in> set (AList.update k (Arr ys) xs). \<exists>zs. v = Arr zs \<and> length zs = n"
  proof -
    have "\<exists>zs. v = Arr zs \<and> length zs = n" if "(k', v) \<in> set (AList.update k (Arr ys) xs)" for k' v
    proof -
      from that set_update_subset [of k "Arr ys" xs]
      have "(k', v) = (k, Arr ys) \<or> (k', v) \<in> set xs"
        by blast
      then show ?thesis
        using assms by (auto simp: lead_len_Some_iff)
    qed
    then show ?thesis by blast
  qed
  ultimately show ?thesis
    by (simp add: lead_len_Some_iff)
qed

lemma prefactor: "Fin pi / (Fin 8 * fpowr (Fin 2) (1 / 2)) = Fin (pi / (8 * sqrt 2))"
proof -
  have "(2::real) powr (1 / 2) = sqrt 2"
    by (rule powr_half_sqrt) simp
  then have "fpowr (Fin 2) (1 / 2) = Fin (sqrt 2)"
    by simp
  then show ?thesis
    by simp
qed

lemma aslice_mat: "r < length xss \<Longrightarrow> aslice r (mat xss) = vec (xss ! r)"
  by (simp add: mat_def)

lemma map2_map_nth:
  "length xs = length ys \<Longrightarrow>
   map2 f (map h xs) ys = map (\<lambda>i. f (h (xs ! i)) (ys ! i)) [0..<length xs]"
  by (rule nth_equalityI) auto

lemma epsilon_32_value_formula:
  assumes tr: "map_of transforms ''grid'' = Some tr"
    and quad: "quad = (case kw_quad kwargs of
                         Some q \<Rightarrow> q
                       | None \<Rightarrow> chebgauss2 (case kw_num_quad kwargs of Some n \<Rightarrow> n | None \<Rightarrow> 32))"
    and batch: "batch = (case kw_batch kwargs of Some b \<Rightarrow> b | None \<Rightarrow> True)"
    and np: "num_pitch = (case kw_num_pitch kwargs of Some n \<Rightarrow> n | None \<Rightarrow> 50)"
    and B0: "map_of data ''max_tz |B|'' = Some (vec b0)"
    and R0: "map_of data ''R0'' = Some (Sc r0)"
    and G: "map_of data ''<|grad(rho)|>'' = Some (vec gs)"
    and gr: "map_of data ''|grad(rho)|'' = Some (vec grs)"
    and ka: "map_of data ''kappa_g'' = Some (vec ks)"
    and L: "map_of data ''fieldline length'' = Some (vec ls)"
    and lens: "length b0 = n" "length gs = n" "length ls = n" "length cs = n"
      "length ks = length grs"
    and comp: "compute B (eps_32 B (source_grid tr) quad (kw_num_well kwargs) batch)
                 [(''|grad(rho)|*kappa_g'', vec (map2 (*) grs ks))] data (source_grid tr)
                 num_pitch False True = Some (fd2, vec cs)"
  shows "epsilon_32_value B chebgauss2 transforms data kwargs
           = Some (vec (map (\<lambda>i. Fin (pi / (8 * sqrt 2)) * fpowi (b0 ! i * r0 / gs ! i) 2
                                 * cs ! i / ls ! i) [0..<n]))"
proof -
  have ratio: "bop (/) (vec (map (\<lambda>b. b * r0) b0)) (vec gs)
                 = Some (vec (map (\<lambda>i. b0 ! i * r0 / gs ! i) [0..<n]))"
    using lens by (simp add: bop_vec_vec map2_map_nth)
  have pre: "bop (*) (Sc (Fin (pi / (8 * sqrt 2))))
                 (amap (\<lambda>x. fpowi x 2) (vec (map (\<lambda>i. b0 ! i * r0 / gs ! i) [0..<n])))
               = Some (vec (map (\<lambda>i. Fin (pi / (8 * sqrt 2)) * fpowi (b0 ! i * r0 / gs ! i) 2) [0..<n]))"
    by (simp add: bop_Sc_vec comp_def)
  have t: "bop (*) (vec (map (\<lambda>i. Fin (pi / (8 * sqrt 2)) * fpowi (b0 ! i * r0 / gs ! i) 2) [0..<n]))
                 (vec cs)
             = Some (vec (map (\<lambda>i. Fin (pi / (8 * sqrt 2)) * fpowi (b0 ! i * r0 / gs ! i) 2 * cs ! i)
                            [0..<n]))"
    using lens by (simp add: bop_vec_vec map2_upt)
  have v: "bop (/) (vec (map (\<lambda>i. Fin (pi / (8 * sqrt 2)) * fpowi (b0 ! i * r0 / gs ! i) 2 * cs ! i)
                            [0..<n])) (vec ls)
             = Some (vec (map (\<lambda>i. Fin (pi / (8 * sqrt 2)) * fpowi (b0 ! i * r0 / gs ! i) 2 * cs ! i
                                  / ls ! i) [0..<n]))"
    using lens by (simp add: bop_vec_vec map2_upt)
  have gk: "bop (*) (vec grs) (vec ks) = Some (vec (map2 (*) grs ks))"
    using lens by (simp add: bop_vec_vec)
  have b0r0: "bop (*) (vec b0) (Sc r0) = Some (vec (map (\<lambda>b. b * r0) b0))"
    by (simp add: bop_vec_Sc)
  show ?thesis
    unfolding epsilon_32_value_def
    by (simp only: tr B0 R0 G gr ka L b0r0 ratio prefactor pre gk t v
          comp [unfolded quad batch np] bind.bind_lunit Let_def prod.case)
qed



lemma compute_kernel:
  assumes bmin: "map_of data ''min_tz |B|'' = Some bmin"
    and cmin: "compress g ''rho'' bmin = Some cmin"
    and bmax: "map_of data ''max_tz |B|'' = Some bmax"
    and cmax: "compress g ''rho'' bmax = Some cmax"
    and pq: "get_pitch_inv_quad B cmin cmax num_pitch False = Some (mat P, mat W)"
    and copy: "copy_names (required_names B) data fun_data = Some fd1"
    and reshape: "reshape_all B g fd1 = Some fd2"
    and outer: "lead_len fd2 = Some na"
    and inner: "\<forall>a<na. lead_len (slice a fd2) = Some (num_rho g)"
    and na: "0 < na"
    and shapeP: "length P = num_rho g" "length W = num_rho g"
      "\<forall>r<num_rho g. P ! r \<noteq> [] \<and> length (W ! r) = length (P ! r)"
    and integ: "\<forall>a<na. \<forall>r<num_rho g.
        integrate B g (fieldline_data (mat P) (mat W) fd2 a r) quad [dH, dI] (vec (P ! r))
          ''|grad(rho)|*kappa_g'' num_well batch = Some [mat (H a r), mat (I a r)]
        \<and> length (H a r) = length (P ! r) \<and> length (I a r) = length (P ! r)
        \<and> (\<forall>p<length (P ! r). length (I a r ! p) = length (H a r ! p))"
    and idx: "list_all (\<lambda>r. r < num_rho g) (inverse_rho_idx g)"
    and E: "E = (\<lambda>a r. \<Sum>p\<leftarrow>[0..<length (P ! r)].
                 (\<Sum>j\<leftarrow>[0..<length (H a r ! p)]. safediv_num (fpowi (H a r ! p ! j) 2) (I a r ! p ! j))
                   * fpowi (P ! r ! p) (- 3) * W ! r ! p)"
  shows "compute B (eps_32 B g quad num_well batch) fun_data data g num_pitch False True
           = Some (fd2, vec (map (\<lambda>r. (\<Sum>a\<leftarrow>[0..<na]. E a r) / Fin (real na)) (inverse_rho_idx g)))"
proof -
  let ?X = "map (\<lambda>a. map (E a) [0..<num_rho g]) [0..<na]"
  have val: "eps_32 B g quad num_well batch (fieldline_data (mat P) (mat W) fd2 a r) = Some (Sc (E a r))"
    if "a < na" and "r < num_rho g" for a r
    unfolding E
    by (rule eps_32_value [where ws = "W ! r"])
       (use that integ shapeP in \<open>simp_all add: fieldline_data_pitch_inv fieldline_data_weight aslice_mat\<close>)
  have upd: "lead_len (AList.update ''pitch_inv weight'' (mat W)
                         (AList.update ''pitch_inv'' (mat P) (slice a fd2))) = Some (num_rho g)"
    if "a < na" for a
    unfolding mat_def
    by (intro lead_len_update) (use that inner shapeP in simp_all)
  have out: "compute B (eps_32 B g quad num_well batch) fun_data data g num_pitch False False
               = Some (fd2, mat ?X)"
    by (rule compute_out [where E = E and nr = "num_rho g" and fn = "eps_32 B g quad num_well batch",
          OF bmin cmin bmax cmax pq copy reshape outer])
       (use upd val in blast)+
  have "compute B (eps_32 B g quad num_well batch) fun_data data g num_pitch False True
          = Some (fd2, vec (map (\<lambda>r. sum_list (map (\<lambda>row. row ! r) ?X) / Fin (real (length ?X)))
                             (inverse_rho_idx g)))"
    by (rule compute_reduce [OF out]) (use na idx in auto)
  also have "map (\<lambda>r. sum_list (map (\<lambda>row. row ! r) ?X) / Fin (real (length ?X))) (inverse_rho_idx g)
               = map (\<lambda>r. (\<Sum>a\<leftarrow>[0..<na]. E a r) / Fin (real na)) (inverse_rho_idx g)"
  proof (rule map_cong [OF refl])
    fix r assume "r \<in> set (inverse_rho_idx g)"
    then have "r < num_rho g"
      using idx by (auto simp: list_all_iff)
    then have "map (\<lambda>row. row ! r) ?X = map (\<lambda>a. E a r) [0..<na]"
      by (simp add: comp_def)
    then show "sum_list (map (\<lambda>row. row ! r) ?X) / Fin (real (length ?X))
                 = (\<Sum>a\<leftarrow>[0..<na]. E a r) / Fin (real na)"
      by (simp only: length_map length_upt diff_zero)
  qed
  finally show ?thesis .
qed

section \<open>A small configuration\<close>

text \<open>
  Two surfaces, two field lines and three toroidal nodes: twelve grid points, the field
  line label running fastest, then the surface, then the toroidal node.
\<close>

definition grid0 :: grid where
  "grid0 = \<lparr>
     num_rho = 2, num_alpha = 2, num_zeta = 3,
     nodes = mat (map (map Fin)
       [[1 / 2, 0, 0], [1 / 2, 1, 0], [1, 0, 0], [1, 1, 0],
        [1 / 2, 0, 1], [1 / 2, 1, 1], [1, 0, 1], [1, 1, 1],
        [1 / 2, 0, 2], [1 / 2, 1, 2], [1, 0, 2], [1, 1, 2]]),
     inverse_rho_idx = [0, 0, 1, 1, 0, 0, 1, 1, 0, 0, 1, 1],
     compress = (\<lambda>label x. case x of
         Sc _ \<Rightarrow> None
       | Arr xs \<Rightarrow>
           if length xs \<noteq> 12 then None
           else if label = ''rho'' then Some (Arr [xs ! 0, xs ! 2])
           else if label = ''zeta'' then Some (Arr [xs ! 0, xs ! 4, xs ! 8])
           else None),
     meshgrid_reshape = (\<lambda>x order. case x of
         Sc _ \<Rightarrow> None
       | Arr xs \<Rightarrow>
           if length xs = 12 \<and> order = ''arz''
           then Some (Arr [Arr [Arr [xs ! 0, xs ! 4, xs ! 8], Arr [xs ! 2, xs ! 6, xs ! 10]],
                           Arr [Arr [xs ! 1, xs ! 5, xs ! 9], Arr [xs ! 3, xs ! 7, xs ! 11]]])
           else None) \<rparr>"

text \<open>
  A stand-in for \<^verbatim>\<open>Bounce1D\<close>: the pitch nodes divide the interval between the least and
  the greatest field strength of a surface evenly, and every pitch has two wells, the
  second of measure zero.
\<close>

definition bounce0 :: bounce1d where
  "bounce0 = \<lparr>
     get_pitch_inv_quad = (\<lambda>cmin cmax n simp. case (cmin, cmax) of
         (Arr los, Arr his) \<Rightarrow>
           if length los \<noteq> length his then None
           else Some
             (Arr (map2 (\<lambda>lo hi. vec (map (\<lambda>k. the_Sc lo + (the_Sc hi - the_Sc lo)
                                              * Fin (real (k + 1) / real (n + 1))) [0..<n])) los his),
              Arr (map2 (\<lambda>lo hi. vec (map (\<lambda>k. (the_Sc hi - the_Sc lo) / Fin (real n)) [0..<n]))
                     los his))
       | _ \<Rightarrow> None),
     required_names = [''B^zeta'', ''|B|''],
     reshape_data = (\<lambda>g x. meshgrid_reshape g x ''arz''),
     integrate = (\<lambda>g x quad fs pitch_inv name num_well batch.
       case (pitch_inv, map_of x ''|B|'') of
         (Arr ps, Some (Arr (b # bs))) \<Rightarrow>
           Some [Arr (map (\<lambda>p. Arr [b, Sc (Fin 1)]) ps),
                 Arr (map (\<lambda>p. Arr [Sc (Fin 1), Sc (Fin 0)]) ps)]
       | _ \<Rightarrow> None) \<rparr>"

definition data_in0 :: dict where
  "data_in0 =
     [(''min_tz |B|'', vec (map Fin [1, 1, 2, 2, 1, 1, 2, 2, 1, 1, 2, 2])),
      (''max_tz |B|'', vec (map Fin [4, 4, 8, 8, 4, 4, 8, 8, 4, 4, 8, 8])),
      (''kappa_g'', vec (map Fin [1, 2, 1, 2, 1, 2, 1, 2, 1, 2, 1, 2])),
      (''R0'', Sc (Fin 3)),
      (''|grad(rho)|'', vec (map Fin [1, 1, 1, 1, 2, 2, 2, 2, 1, 1, 1, 1])),
      (''<|grad(rho)|>'', vec (map Fin [2, 2, 4, 4, 2, 2, 4, 4, 2, 2, 4, 4])),
      (''B^zeta'', vec (map Fin [1, 2, - 2, - 4, 1, 4, - 2, - 8, 1, 2, - 2, - 4])),
      (''|B|'', vec (map Fin [2, 3, 4, 5, 1, 4, 2, 8, 2, 3, 4, 5]))]"

definition data0 :: dict where
  "data0 = data_in0 @
     [(''fieldline length'',
         vec (map Fin [4 / 3, 4 / 3, 2 / 3, 2 / 3, 4 / 3, 4 / 3, 2 / 3, 2 / 3,
                       4 / 3, 4 / 3, 2 / 3, 2 / 3]))]"

definition transforms0 :: transforms where
  "transforms0 = [(''grid'', \<lparr>source_grid = grid0\<rparr>)]"

definition kwargs0 :: kwargs where
  "kwargs0 = \<lparr>kw_quad = None, kw_num_quad = None, kw_num_pitch = Some 2,
               kw_num_well = None, kw_batch = None\<rparr>"

definition chebgauss0 :: "nat \<Rightarrow> quadrature" where
  "chebgauss0 n = (vec (map (\<lambda>k. Fin (real k)) [0..<n]), vec (map (\<lambda>k. Fin 1) [0..<n]))"

text \<open>The reshaped data of the configuration, in the layout (field line, surface, node).\<close>

definition fun_data0 :: dict where
  "fun_data0 =
     [(''|grad(rho)|*kappa_g'',
         Arr [mat [map Fin [1, 2, 1], map Fin [1, 2, 1]], mat [map Fin [2, 4, 2], map Fin [2, 4, 2]]]),
      (''B^zeta'',
         Arr [mat [map Fin [1, 1, 1], map Fin [- 2, - 2, - 2]],
              mat [map Fin [2, 4, 2], map Fin [- 4, - 8, - 4]]]),
      (''|B|'',
         Arr [mat [map Fin [2, 1, 2], map Fin [4, 2, 4]], mat [map Fin [3, 4, 3], map Fin [5, 8, 5]]])]"

lemma upt_2: "[0..<2] = [0, 1]"
  by (simp add: numeral_2_eq_2)

lemma less_2_cases: "(\<forall>a<(2::nat). Q a) \<longleftrightarrow> Q 0 \<and> Q 1"
  by (auto simp: less_2_cases_iff)

lemma compress_min0:
  "compress grid0 ''rho'' (vec (map Fin [1, 1, 2, 2, 1, 1, 2, 2, 1, 1, 2, 2])) = Some (vec [Fin 1, Fin 2])"
  by (simp add: grid0_def vec_def)

lemma compress_max0:
  "compress grid0 ''rho'' (vec (map Fin [4, 4, 8, 8, 4, 4, 8, 8, 4, 4, 8, 8])) = Some (vec [Fin 4, Fin 8])"
  by (simp add: grid0_def vec_def)

lemma pitch_quad0:
  "get_pitch_inv_quad bounce0 (vec [Fin 1, Fin 2]) (vec [Fin 4, Fin 8]) 2 False
     = Some (mat [[Fin 2, Fin 3], [Fin 4, Fin 6]], mat [[Fin (3 / 2), Fin (3 / 2)], [Fin 3, Fin 3]])"
  by (simp add: bounce0_def vec_def mat_def upt_2)

lemma copy_names0:
  "copy_names (required_names bounce0) data0
     [(''|grad(rho)|*kappa_g'', vec (map Fin [1, 2, 1, 2, 2, 4, 2, 4, 1, 2, 1, 2]))]
   = Some [(''|grad(rho)|*kappa_g'', vec (map Fin [1, 2, 1, 2, 2, 4, 2, 4, 1, 2, 1, 2])),
           (''B^zeta'', vec (map Fin [1, 2, - 2, - 4, 1, 4, - 2, - 8, 1, 2, - 2, - 4])),
           (''|B|'', vec (map Fin [2, 3, 4, 5, 1, 4, 2, 8, 2, 3, 4, 5]))]"
  by (simp add: bounce0_def data0_def data_in0_def)

lemma reshape_all0:
  "reshape_all bounce0 grid0
     [(''|grad(rho)|*kappa_g'', vec (map Fin [1, 2, 1, 2, 2, 4, 2, 4, 1, 2, 1, 2])),
      (''B^zeta'', vec (map Fin [1, 2, - 2, - 4, 1, 4, - 2, - 8, 1, 2, - 2, - 4])),
      (''|B|'', vec (map Fin [2, 3, 4, 5, 1, 4, 2, 8, 2, 3, 4, 5]))]
   = Some fun_data0"
  by (simp add: reshape_all_def bounce0_def grid0_def fun_data0_def vec_def mat_def)

lemma lead_len0: "lead_len fun_data0 = Some 2"
  by (simp add: fun_data0_def mat_def)

lemma lead_len_slice0: "\<forall>a<2. lead_len (slice a fun_data0) = Some (num_rho grid0)"
  by (simp add: less_2_cases fun_data0_def slice_def mat_def grid0_def)

text \<open>The wells of the configuration: the bounce integrals for field line \<open>a\<close> on surface \<open>r\<close>.\<close>

definition H0 :: "nat \<Rightarrow> nat \<Rightarrow> num list list" where
  "H0 a r = [[Fin ([[2, 4], [3, 5]] ! a ! r), Fin 1], [Fin ([[2, 4], [3, 5]] ! a ! r), Fin 1]]"

definition I0 :: "nat \<Rightarrow> nat \<Rightarrow> num list list" where
  "I0 a r = [[Fin 1, Fin 0], [Fin 1, Fin 0]]"

definition P0 :: "num list list" where
  "P0 = [[Fin 2, Fin 3], [Fin 4, Fin 6]]"

definition W0 :: "num list list" where
  "W0 = [[Fin (3 / 2), Fin (3 / 2)], [Fin 3, Fin 3]]"

lemma integrate0:
  "\<forall>a<2. \<forall>r<num_rho grid0.
     integrate bounce0 grid0 (fieldline_data (mat P0) (mat W0) fun_data0 a r) quad [dH, dI]
       (vec (P0 ! r)) ''|grad(rho)|*kappa_g'' num_well batch = Some [mat (H0 a r), mat (I0 a r)]
     \<and> length (H0 a r) = length (P0 ! r) \<and> length (I0 a r) = length (P0 ! r)
     \<and> (\<forall>p<length (P0 ! r). length (I0 a r ! p) = length (H0 a r ! p))"
  by (simp add: grid0_def less_2_cases bounce0_def fieldline_data_other fun_data0_def
        mat_def vec_def P0_def W0_def H0_def I0_def All_less_Suc)

definition E0 :: "nat \<Rightarrow> nat \<Rightarrow> num" where
  "E0 a r = Fin ([[35 / 36, 35 / 36], [35 / 16, 875 / 576]] ! a ! r)"

lemma eps0:
  assumes "a < 2" and "r < 2"
  shows "eps_32 bounce0 grid0 quad num_well batch (fieldline_data (mat P0) (mat W0) fun_data0 a r)
           = Some (Sc (E0 a r))"
proof -
  have r: "r < num_rho grid0"
    using assms by (simp add: grid0_def)
  have lenP: "r < length P0" "r < length W0"
    using assms by (simp_all add: P0_def W0_def)
  have "eps_32 bounce0 grid0 quad num_well batch (fieldline_data (mat P0) (mat W0) fun_data0 a r)
          = Some (Sc (\<Sum>p\<leftarrow>[0..<length (P0 ! r)].
              (\<Sum>j\<leftarrow>[0..<length (H0 a r ! p)].
                  safediv_num (fpowi (H0 a r ! p ! j) 2) (I0 a r ! p ! j))
                * fpowi (P0 ! r ! p) (- 3) * W0 ! r ! p))"
  proof (rule eps_32_value [where ws = "W0 ! r"])
    show "map_of (fieldline_data (mat P0) (mat W0) fun_data0 a r) ''pitch_inv'' = Some (vec (P0 ! r))"
      using lenP by (simp add: fieldline_data_pitch_inv aslice_mat)
    show "map_of (fieldline_data (mat P0) (mat W0) fun_data0 a r) ''pitch_inv weight''
            = Some (vec (W0 ! r))"
      using lenP by (simp add: fieldline_data_weight aslice_mat)
    show "integrate bounce0 grid0 (fieldline_data (mat P0) (mat W0) fun_data0 a r) quad [dH, dI]
            (vec (P0 ! r)) ''|grad(rho)|*kappa_g'' num_well batch = Some [mat (H0 a r), mat (I0 a r)]"
      using integrate0 assms(1) r by blast
    show "P0 ! r \<noteq> []" "length (W0 ! r) = length (P0 ! r)"
      using assms(2) by (simp_all add: P0_def W0_def less_2_cases_iff, auto)
    show "length (H0 a r) = length (P0 ! r)" "length (I0 a r) = length (P0 ! r)"
      "\<forall>p<length (P0 ! r). length (I0 a r ! p) = length (H0 a r ! p)"
      using integrate0 assms(1) r by blast+
  qed
  also have "(\<Sum>p\<leftarrow>[0..<length (P0 ! r)].
              (\<Sum>j\<leftarrow>[0..<length (H0 a r ! p)].
                  safediv_num (fpowi (H0 a r ! p ! j) 2) (I0 a r ! p ! j))
                * fpowi (P0 ! r ! p) (- 3) * W0 ! r ! p) = E0 a r"
    using assms
    by (auto simp: less_2_cases_iff P0_def W0_def H0_def I0_def E0_def upt_2 safediv_num_def
          zero_num_def)
  finally show ?thesis .
qed

section \<open>The effective ripple\<close>

text \<open>
  \<^verbatim>\<open>_effective_ripple\<close>:
  \<^verbatim>\<open>data["effective ripple"] = data["effective ripple 3/2"] ** (2 / 3)\<close>.
\<close>

definition effective_ripple :: "dict \<Rightarrow> dict option" where
  "effective_ripple data =
     (case map_of data ''effective ripple 3/2'' of
        None \<Rightarrow> None
      | Some e \<Rightarrow> Some (AList.update ''effective ripple'' (amap (\<lambda>x. fpowr x (2 / 3)) e) data))"

lemma fpowr_nonneg: "0 \<le> x \<Longrightarrow> 0 < y \<Longrightarrow> fpowr (Fin x) y = Fin (x powr y)"
  by simp

text \<open>
  C1. Whenever the quantity "effective ripple 3/2" is stored, \<^verbatim>\<open>_effective_ripple\<close>
  returns, leaves that quantity as it was, and stores as "effective ripple" the array
  whose every entry is the entry of "effective ripple 3/2" raised to the power 2/3. On a
  one-dimensional array of per-node values \<open>Fin x\<close> with \<open>0 \<le> x\<close> the entry is
  \<open>Fin (x powr (2 / 3))\<close>.
\<close>

theorem effective_ripple_two_thirds:
  assumes "map_of data ''effective ripple 3/2'' = Some e"
  shows "\<exists>d. effective_ripple data = Some d
           \<and> map_of d ''effective ripple 3/2'' = Some e
           \<and> map_of d ''effective ripple'' = Some (amap (\<lambda>x. fpowr x (2 / 3)) e)
           \<and> (\<forall>xs. e = vec (map Fin xs) \<and> list_all (\<lambda>x. 0 \<le> x) xs \<longrightarrow>
                 map_of d ''effective ripple'' = Some (vec (map (\<lambda>x. Fin (x powr (2 / 3))) xs)))"
proof -
  let ?d = "AList.update ''effective ripple'' (amap (\<lambda>x. fpowr x (2 / 3)) e) data"
  have run: "effective_ripple data = Some ?d"
    using assms by (simp add: effective_ripple_def)
  have kept: "map_of ?d ''effective ripple 3/2'' = Some e"
    using assms by (simp add: update_conv')
  have new: "map_of ?d ''effective ripple'' = Some (amap (\<lambda>x. fpowr x (2 / 3)) e)"
    by (simp add: update_conv')
  have pos: "map_of ?d ''effective ripple'' = Some (vec (map (\<lambda>x. Fin (x powr (2 / 3))) xs))"
    if "e = vec (map Fin xs)" and "list_all (\<lambda>x. 0 \<le> x) xs" for xs
  proof -
    have "amap (\<lambda>x. fpowr x (2 / 3)) e = vec (map (\<lambda>x. Fin (x powr (2 / 3))) xs)"
      unfolding that(1) using that(2) by (induction xs) (auto simp: vec_def)
    then show ?thesis
      using new by (simp only:)
  qed
  show ?thesis
    using run kept new pos by blast
qed

theorem effective_ripple_two_thirds_witness:
  "effective_ripple [(''effective ripple 3/2'', vec [Fin 1, Fin 0])]
     = Some [(''effective ripple 3/2'', vec [Fin 1, Fin 0]),
             (''effective ripple'', vec [Fin 1, Fin 0])]"
proof -
  have "map_of [(''effective ripple 3/2'', vec [Fin 1, Fin 0])] ''effective ripple 3/2''
          = Some (vec [Fin 1, Fin 0])"
    by simp
  from effective_ripple_two_thirds [OF this]
  show ?thesis
    by (simp add: effective_ripple_def)
qed

section \<open>The kernel: the weighted sum over pitch nodes\<close>

text \<open>
  The sum as the claim words it: the sum over the wells is weighted over the pitch nodes
  by the pitch to the power \<open>-3\<close> times the quadrature weight. The pitch is the argument
  \<^verbatim>\<open>pitch\<close> of the integrands, the inverse of the node stored in \<^verbatim>\<open>pitch_inv\<close>.
\<close>

definition claimed_pitch_sum ::
  "num list list \<Rightarrow> num list list \<Rightarrow> num list \<Rightarrow> num list \<Rightarrow> num" where
  "claimed_pitch_sum H I pitch ws =
     (\<Sum>p\<leftarrow>[0..<length pitch].
        (\<Sum>j\<leftarrow>[0..<length (H ! p)]. safediv_num (fpowi (H ! p ! j) 2) (I ! p ! j))
          * fpowi (pitch ! p) (- 3) * ws ! p)"

text \<open>
  C2, as stated, fails. On field line 0 of surface 0 of the small configuration the
  nodes of \<^verbatim>\<open>pitch_inv\<close> are 2 and 3, so the pitches are 1/2 and 1/3; both weights are 3/2
  and the sum over the wells is 4 at both nodes. The kernel returns
  \<open>4 \<cdot> 2\<^sup>-\<^sup>3 \<cdot> 3/2 + 4 \<cdot> 3\<^sup>-\<^sup>3 \<cdot> 3/2 = 35/36\<close>, where the weight pitch to the power \<open>-3\<close> gives
  \<open>4 \<cdot> 8 \<cdot> 3/2 + 4 \<cdot> 27 \<cdot> 3/2 = 210\<close>.
\<close>

theorem eps_32_pitch_weighted_sum_counterexample:
  "eps_32 bounce0 grid0 (chebgauss0 32) None True (fieldline_data (mat P0) (mat W0) fun_data0 0 0)
     = Some (Sc (Fin (35 / 36)))
   \<and> claimed_pitch_sum [[Fin 2, Fin 1], [Fin 2, Fin 1]] [[Fin 1, Fin 0], [Fin 1, Fin 0]]
         [Fin (1 / 2), Fin (1 / 3)] [Fin (3 / 2), Fin (3 / 2)] = Fin 210
   \<and> eps_32 bounce0 grid0 (chebgauss0 32) None True (fieldline_data (mat P0) (mat W0) fun_data0 0 0)
       \<noteq> Some (Sc (claimed_pitch_sum [[Fin 2, Fin 1], [Fin 2, Fin 1]]
                      [[Fin 1, Fin 0], [Fin 1, Fin 0]] [Fin (1 / 2), Fin (1 / 3)]
                      [Fin (3 / 2), Fin (3 / 2)]))"
proof -
  have code: "eps_32 bounce0 grid0 (chebgauss0 32) None True
                (fieldline_data (mat P0) (mat W0) fun_data0 0 0) = Some (Sc (Fin (35 / 36)))"
    using eps0 [of 0 0 "chebgauss0 32" None True] by (simp add: E0_def)
  have claimed: "claimed_pitch_sum [[Fin 2, Fin 1], [Fin 2, Fin 1]] [[Fin 1, Fin 0], [Fin 1, Fin 0]]
                   [Fin (1 / 2), Fin (1 / 3)] [Fin (3 / 2), Fin (3 / 2)] = Fin 210"
    by (simp add: claimed_pitch_sum_def upt_2 safediv_num_def zero_num_def power3_eq_cube)
  show ?thesis
    unfolding code claimed by simp
qed

text \<open>
  C2, amended. On the data of one field line, let the bounce integrals \<open>H\<close> and \<open>I\<close> have
  one row per pitch node and one column per well. Then \<^verbatim>\<open>eps_32\<close> returns the sum over the
  pitch nodes \<open>p\<close> of the sum over the wells \<open>j\<close> of \<open>safediv (H\<^sup>2) I\<close>, times the node to the
  power \<open>-3\<close>, times the weight of the node. The node is the entry of \<^verbatim>\<open>data["pitch_inv"]\<close>,
  the inverse of the pitch, and the weight the entry of \<^verbatim>\<open>data["pitch_inv weight"]\<close>: where
  the nodes are the inverses of pitches other than zero, the factor is the pitch to the
  power \<open>+3\<close>.
\<close>

theorem eps_32_pitch_weighted_sum:
  assumes "map_of x ''pitch_inv'' = Some (vec ps)"
    and "map_of x ''pitch_inv weight'' = Some (vec ws)"
    and "integrate B g x quad [dH, dI] (vec ps) ''|grad(rho)|*kappa_g'' num_well batch
           = Some [mat H, mat I]"
    and "ps \<noteq> []"
    and "length H = length ps" and "length I = length ps" and "length ws = length ps"
    and "\<forall>p<length ps. length (I ! p) = length (H ! p)"
  shows "eps_32 B g quad num_well batch x
           = Some (Sc (\<Sum>p\<leftarrow>[0..<length ps].
                 (\<Sum>j\<leftarrow>[0..<length (H ! p)]. safediv_num (fpowi (H ! p ! j) 2) (I ! p ! j))
                   * fpowi (ps ! p) (- 3) * ws ! p))
         \<and> (\<forall>pitch. ps = map (\<lambda>l. Fin (1 / l)) pitch \<and> list_all (\<lambda>l. l \<noteq> 0) pitch \<longrightarrow>
               eps_32 B g quad num_well batch x
                 = Some (Sc (\<Sum>p\<leftarrow>[0..<length pitch].
                       (\<Sum>j\<leftarrow>[0..<length (H ! p)]. safediv_num (fpowi (H ! p ! j) 2) (I ! p ! j))
                         * Fin (pitch ! p ^ 3) * ws ! p)))"
proof -
  let ?s = "\<lambda>p. \<Sum>j\<leftarrow>[0..<length (H ! p)]. safediv_num (fpowi (H ! p ! j) 2) (I ! p ! j)"
  have node: "eps_32 B g quad num_well batch x
                = Some (Sc (\<Sum>p\<leftarrow>[0..<length ps]. ?s p * fpowi (ps ! p) (- 3) * ws ! p))"
    using assms by (rule eps_32_value)
  have "(\<Sum>p\<leftarrow>[0..<length ps]. ?s p * fpowi (ps ! p) (- 3) * ws ! p)
          = (\<Sum>p\<leftarrow>[0..<length pitch]. ?s p * Fin (pitch ! p ^ 3) * ws ! p)"
    if ps: "ps = map (\<lambda>l. Fin (1 / l)) pitch" and nz: "list_all (\<lambda>l. l \<noteq> 0) pitch" for pitch
  proof -
    have "fpowi (ps ! p) (- 3) = Fin (pitch ! p ^ 3)" if "p < length pitch" for p
    proof -
      have "pitch ! p \<noteq> 0"
        using nz that by (simp add: list_all_length)
      then show ?thesis
        using that ps by (simp add: power_one_over)
    qed
    then have "map (\<lambda>p. ?s p * fpowi (ps ! p) (- 3) * ws ! p) [0..<length pitch]
                 = map (\<lambda>p. ?s p * Fin (pitch ! p ^ 3) * ws ! p) [0..<length pitch]"
      by (intro map_cong [OF refl]) simp
    moreover have "length ps = length pitch"
      using ps by simp
    ultimately show ?thesis
      by (simp only:)
  qed
  with node show ?thesis
    by simp
qed

theorem eps_32_pitch_weighted_sum_witness:
  "eps_32 bounce0 grid0 (chebgauss0 32) None True (fieldline_data (mat P0) (mat W0) fun_data0 0 0)
     = Some (Sc (Fin (35 / 36)))"
proof -
  let ?x = "fieldline_data (mat P0) (mat W0) fun_data0 0 0"
  have pitch: "map_of ?x ''pitch_inv'' = Some (vec [Fin 2, Fin 3])"
    by (simp add: fieldline_data_pitch_inv aslice_mat P0_def)
  have weight: "map_of ?x ''pitch_inv weight'' = Some (vec [Fin (3 / 2), Fin (3 / 2)])"
    by (simp add: fieldline_data_weight aslice_mat W0_def)
  have integ: "integrate bounce0 grid0 ?x (chebgauss0 32) [dH, dI] (vec [Fin 2, Fin 3])
                 ''|grad(rho)|*kappa_g'' None True
               = Some [mat [[Fin 2, Fin 1], [Fin 2, Fin 1]], mat [[Fin 1, Fin 0], [Fin 1, Fin 0]]]"
    by (simp add: bounce0_def fieldline_data_other fun_data0_def mat_def vec_def)
  have "eps_32 bounce0 grid0 (chebgauss0 32) None True ?x
          = Some (Sc (\<Sum>p\<leftarrow>[0..<length [Fin 2, Fin 3]].
                (\<Sum>j\<leftarrow>[0..<length ([[Fin 2, Fin 1], [Fin 2, Fin 1]] ! p)].
                    safediv_num (fpowi ([[Fin 2, Fin 1], [Fin 2, Fin 1]] ! p ! j) 2)
                      ([[Fin 1, Fin 0], [Fin 1, Fin 0]] ! p ! j))
                  * fpowi ([Fin 2, Fin 3] ! p) (- 3) * [Fin (3 / 2), Fin (3 / 2)] ! p))"
    by (rule conjunct1 [OF eps_32_pitch_weighted_sum [OF pitch weight integ]])
       (simp_all add: All_less_Suc)
  then show ?thesis
    by (simp add: upt_2 safediv_num_def zero_num_def)
qed

section \<open>Wells of measure zero\<close>

lemma sum_list_Fin: "(\<Sum>i\<leftarrow>xs. Fin (f i)) = Fin (\<Sum>i\<leftarrow>xs. f i)"
  by (induction xs) (simp_all add: zero_num_def)

lemma sum_upt_Fin:
  assumes "\<And>i. i < n \<Longrightarrow> f i = Fin (h i)"
  shows "(\<Sum>i\<leftarrow>[0..<n]. f i) = Fin (\<Sum>i\<leftarrow>[0..<n]. h i)"
proof -
  have "map f [0..<n] = map (\<lambda>i. Fin (h i)) [0..<n]"
    using assms by simp
  then show ?thesis
    by (simp only: sum_list_Fin)
qed

text \<open>
  C4. The contribution \<open>safediv (H\<^sup>2) I\<close> of a well whose integral \<open>I\<close> is zero is exactly zero,
  whatever \<open>H\<close> is, where the plain quotient would not be a number. With it, on finite bounce
  integrals, finite weights and finite nodes other than zero, \<^verbatim>\<open>eps_32\<close> returns a finite
  number, in which the wells of measure zero count as zero: no \<open>NaN\<close> leaves the kernel.
\<close>

theorem zero_measure_well_contributes_zero:
  assumes pitch: "map_of x ''pitch_inv'' = Some (vec (map Fin ps))"
    and weight: "map_of x ''pitch_inv weight'' = Some (vec (map Fin ws))"
    and integ: "integrate B g x quad [dH, dI] (vec (map Fin ps)) ''|grad(rho)|*kappa_g''
                  num_well batch = Some [mat (map (map Fin) H), mat (map (map Fin) I)]"
    and ne: "ps \<noteq> []"
    and lens: "length H = length ps" "length I = length ps" "length ws = length ps"
    and wells: "\<forall>p<length ps. length (I ! p) = length (H ! p)"
    and nodes: "\<forall>p<length ps. ps ! p \<noteq> 0"
  shows "(\<forall>h. safediv_num h (Fin 0) = Fin 0) \<and> (\<forall>h. h / Fin 0 = NaN)
         \<and> eps_32 B g quad num_well batch x
             = Some (Sc (Fin (\<Sum>p\<leftarrow>[0..<length ps].
                   (\<Sum>j\<leftarrow>[0..<length (H ! p)].
                       if I ! p ! j = 0 then 0 else (H ! p ! j)\<^sup>2 / I ! p ! j)
                     * (1 / ps ! p ^ 3) * ws ! p)))"
proof -
  have safe: "safediv_num h (Fin 0) = Fin 0" for h
    by (simp add: safediv_num_def)
  have plain: "h / Fin 0 = NaN" for h
    by (cases h) simp_all
  let ?s = "\<lambda>p. \<Sum>j\<leftarrow>[0..<length (H ! p)]. if I ! p ! j = 0 then 0 else (H ! p ! j)\<^sup>2 / I ! p ! j"
  have inner: "(\<Sum>j\<leftarrow>[0..<length (map (map Fin) H ! p)].
                  safediv_num (fpowi (map (map Fin) H ! p ! j) 2) (map (map Fin) I ! p ! j))
               = Fin (?s p)" if p: "p < length ps" for p
  proof -
    have len: "length (I ! p) = length (H ! p)"
      using wells p by simp
    have "(\<Sum>j\<leftarrow>[0..<length (H ! p)].
              safediv_num (fpowi (map (map Fin) H ! p ! j) 2) (map (map Fin) I ! p ! j))
            = Fin (?s p)"
    proof (rule sum_upt_Fin)
      fix j assume "j < length (H ! p)"
      then show "safediv_num (fpowi (map (map Fin) H ! p ! j) 2) (map (map Fin) I ! p ! j)
                   = Fin (if I ! p ! j = 0 then 0 else (H ! p ! j)\<^sup>2 / I ! p ! j)"
        using p lens len by (simp add: safediv_num_def)
    qed
    then show ?thesis
      using p lens by simp
  qed
  have outer: "(\<Sum>p\<leftarrow>[0..<length (map Fin ps)].
                  (\<Sum>j\<leftarrow>[0..<length (map (map Fin) H ! p)].
                      safediv_num (fpowi (map (map Fin) H ! p ! j) 2) (map (map Fin) I ! p ! j))
                    * fpowi (map Fin ps ! p) (- 3) * map Fin ws ! p)
               = Fin (\<Sum>p\<leftarrow>[0..<length ps]. ?s p * (1 / ps ! p ^ 3) * ws ! p)"
    unfolding length_map
  proof (rule sum_upt_Fin)
    fix p assume p: "p < length ps"
    then have "fpowi (map Fin ps ! p) (- 3) = Fin (1 / ps ! p ^ 3)"
      using nodes by simp
    then show "(\<Sum>j\<leftarrow>[0..<length (map (map Fin) H ! p)].
                  safediv_num (fpowi (map (map Fin) H ! p ! j) 2) (map (map Fin) I ! p ! j))
                 * fpowi (map Fin ps ! p) (- 3) * map Fin ws ! p
               = Fin (?s p * (1 / ps ! p ^ 3) * ws ! p)"
      using p lens inner [OF p] by simp
  qed
  have "eps_32 B g quad num_well batch x
          = Some (Sc (\<Sum>p\<leftarrow>[0..<length (map Fin ps)].
                (\<Sum>j\<leftarrow>[0..<length (map (map Fin) H ! p)].
                    safediv_num (fpowi (map (map Fin) H ! p ! j) 2) (map (map Fin) I ! p ! j))
                  * fpowi (map Fin ps ! p) (- 3) * map Fin ws ! p))"
    by (rule eps_32_value [OF pitch weight integ]) (use ne lens wells in simp_all)
  then show ?thesis
    using safe plain by (simp only: outer) blast
qed

theorem zero_measure_well_contributes_zero_witness:
  "safediv_num NaN (Fin 0) = Fin 0
   \<and> eps_32 bounce0 grid0 (chebgauss0 32) None True (fieldline_data (mat P0) (mat W0) fun_data0 0 0)
       = Some (Sc (Fin (35 / 36)))"
proof -
  let ?x = "fieldline_data (mat P0) (mat W0) fun_data0 0 0"
  have pitch: "map_of ?x ''pitch_inv'' = Some (vec (map Fin [2, 3]))"
    by (simp add: fieldline_data_pitch_inv aslice_mat P0_def)
  have weight: "map_of ?x ''pitch_inv weight'' = Some (vec (map Fin [3 / 2, 3 / 2]))"
    by (simp add: fieldline_data_weight aslice_mat W0_def)
  have integ: "integrate bounce0 grid0 ?x (chebgauss0 32) [dH, dI] (vec (map Fin [2, 3]))
                 ''|grad(rho)|*kappa_g'' None True
               = Some [mat (map (map Fin) [[2, 1], [2, 1]]), mat (map (map Fin) [[1, 0], [1, 0]])]"
    by (simp add: bounce0_def fieldline_data_other fun_data0_def mat_def vec_def)
  have "(\<forall>h. safediv_num h (Fin 0) = Fin 0) \<and> (\<forall>h. h / Fin 0 = NaN)
        \<and> eps_32 bounce0 grid0 (chebgauss0 32) None True ?x
            = Some (Sc (Fin (\<Sum>p\<leftarrow>[0..<length [2, 3 :: real]].
                  (\<Sum>j\<leftarrow>[0..<length ([[2, 1], [2, 1 :: real]] ! p)].
                      if [[1, 0], [1, 0 :: real]] ! p ! j = 0 then 0
                      else ([[2, 1], [2, 1]] ! p ! j)\<^sup>2 / [[1, 0], [1, 0]] ! p ! j)
                    * (1 / [2, 3] ! p ^ 3) * [3 / 2, 3 / 2] ! p)))"
    by (rule zero_measure_well_contributes_zero [OF pitch weight integ])
       (simp_all add: All_less_Suc)
  then show ?thesis
    by (simp add: upt_2)
qed

section \<open>The mean over the field lines\<close>

text \<open>
  C5. Let \<open>fn\<close> return the scalar \<open>E a r\<close> on the data of field line \<open>a\<close> of surface \<open>r\<close>,
  for \<open>na\<close> field lines. Then \<^verbatim>\<open>_compute\<close> with \<^verbatim>\<open>reduce=True\<close> returns, at every grid point,
  the sum of \<open>E a r\<close> over all field lines \<open>a\<close> divided by their number \<open>na\<close>, for the surface
  \<open>r\<close> that owns the grid point: every field line has the same weight, and all grid points
  of a surface get the same value.
\<close>

theorem compute_mean_over_field_lines:
  assumes "map_of data ''min_tz |B|'' = Some bmin"
    and "compress g ''rho'' bmin = Some cmin"
    and "map_of data ''max_tz |B|'' = Some bmax"
    and "compress g ''rho'' bmax = Some cmax"
    and "get_pitch_inv_quad B cmin cmax num_pitch simp = Some (P, W)"
    and "copy_names (required_names B) data fun_data = Some fd1"
    and "reshape_all B g fd1 = Some fd2"
    and "lead_len fd2 = Some na"
    and "\<forall>a<na. lead_len (AList.update ''pitch_inv weight'' W
                         (AList.update ''pitch_inv'' P (slice a fd2))) = Some (num_rho g)"
    and "\<forall>a<na. \<forall>r<num_rho g. fn (fieldline_data P W fd2 a r) = Some (Sc (E a r))"
    and "0 < na"
    and "list_all (\<lambda>r. r < num_rho g) (inverse_rho_idx g)"
  shows "compute B fn fun_data data g num_pitch simp True
           = Some (fd2, vec (map (\<lambda>r. (\<Sum>a\<leftarrow>[0..<na]. E a r) / Fin (real na)) (inverse_rho_idx g)))"
proof -
  let ?X = "map (\<lambda>a. map (E a) [0..<num_rho g]) [0..<na]"
  have out: "compute B fn fun_data data g num_pitch simp False = Some (fd2, mat ?X)"
    by (rule compute_out [where E = E and nr = "num_rho g" and fn = fn, OF assms(1-8)])
       (use assms(9,10) in blast)+
  have "compute B fn fun_data data g num_pitch simp True
          = Some (fd2, vec (map (\<lambda>r. sum_list (map (\<lambda>row. row ! r) ?X) / Fin (real (length ?X)))
                             (inverse_rho_idx g)))"
    by (rule compute_reduce [OF out]) (use assms(11,12) in auto)
  also have "map (\<lambda>r. sum_list (map (\<lambda>row. row ! r) ?X) / Fin (real (length ?X))) (inverse_rho_idx g)
               = map (\<lambda>r. (\<Sum>a\<leftarrow>[0..<na]. E a r) / Fin (real na)) (inverse_rho_idx g)"
  proof (rule map_cong [OF refl])
    fix r assume "r \<in> set (inverse_rho_idx g)"
    then have "r < num_rho g"
      using assms(12) by (auto simp: list_all_iff)
    then have "map (\<lambda>row. row ! r) ?X = map (\<lambda>a. E a r) [0..<na]"
      by (simp add: comp_def)
    then show "sum_list (map (\<lambda>row. row ! r) ?X) / Fin (real (length ?X))
                 = (\<Sum>a\<leftarrow>[0..<na]. E a r) / Fin (real na)"
      by (simp only: length_map length_upt diff_zero)
  qed
  finally show ?thesis .
qed

lemma data0_min: "map_of data0 ''min_tz |B|'' = Some (vec (map Fin [1, 1, 2, 2, 1, 1, 2, 2, 1, 1, 2, 2]))"
  by (simp add: data0_def data_in0_def)

lemma data0_max: "map_of data0 ''max_tz |B|'' = Some (vec (map Fin [4, 4, 8, 8, 4, 4, 8, 8, 4, 4, 8, 8]))"
  by (simp add: data0_def data_in0_def)

lemma pitch_quad0':
  "get_pitch_inv_quad bounce0 (vec [Fin 1, Fin 2]) (vec [Fin 4, Fin 8]) 2 False = Some (mat P0, mat W0)"
  using pitch_quad0 by (simp add: P0_def W0_def)

lemma lead_len_upd0:
  "\<forall>a<2. lead_len (AList.update ''pitch_inv weight'' (mat W0)
              (AList.update ''pitch_inv'' (mat P0) (slice a fun_data0))) = Some (num_rho grid0)"
proof (intro allI impI)
  fix a :: nat assume "a < 2"
  then have "lead_len (slice a fun_data0) = Some (num_rho grid0)"
    using lead_len_slice0 by blast
  then show "lead_len (AList.update ''pitch_inv weight'' (mat W0)
              (AList.update ''pitch_inv'' (mat P0) (slice a fun_data0))) = Some (num_rho grid0)"
    unfolding mat_def
    by (intro lead_len_update) (simp_all add: P0_def W0_def grid0_def)
qed

theorem compute_mean_over_field_lines_witness:
  "compute bounce0 (eps_32 bounce0 grid0 (chebgauss0 32) None True)
     [(''|grad(rho)|*kappa_g'', vec (map Fin [1, 2, 1, 2, 2, 4, 2, 4, 1, 2, 1, 2]))]
     data0 grid0 2 False True
   = Some (fun_data0, vec (map Fin
       [455 / 288, 455 / 288, 1435 / 1152, 1435 / 1152,
        455 / 288, 455 / 288, 1435 / 1152, 1435 / 1152,
        455 / 288, 455 / 288, 1435 / 1152, 1435 / 1152]))"
proof -
  have vals: "\<forall>a<2. \<forall>r<num_rho grid0.
      eps_32 bounce0 grid0 (chebgauss0 32) None True (fieldline_data (mat P0) (mat W0) fun_data0 a r)
        = Some (Sc (E0 a r))"
    using eps0 by (simp add: grid0_def)
  have idx: "list_all (\<lambda>r. r < num_rho grid0) (inverse_rho_idx grid0)"
    by (simp add: grid0_def)
  have "compute bounce0 (eps_32 bounce0 grid0 (chebgauss0 32) None True)
          [(''|grad(rho)|*kappa_g'', vec (map Fin [1, 2, 1, 2, 2, 4, 2, 4, 1, 2, 1, 2]))]
          data0 grid0 2 False True
        = Some (fun_data0, vec (map (\<lambda>r. (\<Sum>a\<leftarrow>[0..<2]. E0 a r) / Fin (real 2))
                                  (inverse_rho_idx grid0)))"
    by (rule compute_mean_over_field_lines [OF data0_min compress_min0 data0_max compress_max0
          pitch_quad0' copy_names0 reshape_all0 lead_len0 lead_len_upd0 vals _ idx]) simp
  then show ?thesis
    by (simp add: upt_2 E0_def grid0_def)
qed

section \<open>The field line length by the Simpson rule\<close>

text \<open>
  C6. \<^verbatim>\<open>_fieldline_length\<close> reshapes \<open>1 / B^zeta\<close> to the layout (field line, surface, node),
  applies the Simpson rule to the samples of every field line at the toroidal nodes of the
  grid, takes for every surface the mean over the field lines, then the absolute value of
  that mean, and stores as "fieldline length", at every grid point, the value of the
  surface that owns the point.
\<close>

theorem fieldline_length_simpson_mean:
  assumes "map_of transforms ''grid'' = Some tr"
    and "map_of data ''B^zeta'' = Some (vec bz)"
    and "meshgrid_reshape (source_grid tr) (vec (map (\<lambda>b. Fin 1 / b) bz)) ''arz''
           = Some (Arr (map mat Y))"
    and "column 2 (nodes (source_grid tr)) = Some z"
    and "compress (source_grid tr) ''zeta'' z = Some (vec zs)"
    and "Y \<noteq> []"
    and "\<forall>ya \<in> set Y. length ya = num_rho (source_grid tr)"
    and "0 < num_rho (source_grid tr)"
    and "list_all (\<lambda>r. r < num_rho (source_grid tr)) (inverse_rho_idx (source_grid tr))"
  shows "fieldline_length simpson data transforms
           = Some (AList.update ''fieldline length''
               (vec (map (\<lambda>r. \<bar>(\<Sum>ya\<leftarrow>Y. simpson (ya ! r) zs) / Fin (real (length Y))\<bar>)
                       (inverse_rho_idx (source_grid tr))))
               data)"
  using assms by (rule fieldline_length_value)

text \<open>The Simpson rule on three nodes.\<close>

definition simpson0 :: "num list \<Rightarrow> num list \<Rightarrow> num" where
  "simpson0 ys xs =
     (case (ys, xs) of
        ([y0, y1, y2], [x0, x1, x2]) \<Rightarrow> (x2 - x0) / Fin 6 * (y0 + Fin 4 * y1 + y2)
      | _ \<Rightarrow> NaN)"

theorem fieldline_length_simpson_mean_witness:
  "fieldline_length simpson0 data_in0 transforms0 = Some data0"
proof -
  let ?Y = "[[map Fin [1, 1, 1], map Fin [- (1 / 2), - (1 / 2), - (1 / 2)]],
             [map Fin [1 / 2, 1 / 4, 1 / 2], map Fin [- (1 / 4), - (1 / 8), - (1 / 4)]]]"
  have tr: "map_of transforms0 ''grid'' = Some \<lparr>source_grid = grid0\<rparr>"
    by (simp add: transforms0_def)
  have bz: "map_of data_in0 ''B^zeta''
              = Some (vec (map Fin [1, 2, - 2, - 4, 1, 4, - 2, - 8, 1, 2, - 2, - 4]))"
    by (simp add: data_in0_def)
  have reshape: "meshgrid_reshape (source_grid \<lparr>source_grid = grid0\<rparr>)
      (vec (map (\<lambda>b. Fin 1 / b) (map Fin [1, 2, - 2, - 4, 1, 4, - 2, - 8, 1, 2, - 2, - 4]))) ''arz''
        = Some (Arr (map mat ?Y))"
    by (simp add: grid0_def vec_def mat_def)
  have col: "column 2 (nodes (source_grid \<lparr>source_grid = grid0\<rparr>))
               = Some (vec (map Fin [0, 0, 0, 0, 1, 1, 1, 1, 2, 2, 2, 2]))"
    by (simp add: grid0_def column_def mat_def vec_def)
  have zeta: "compress (source_grid \<lparr>source_grid = grid0\<rparr>) ''zeta''
                (vec (map Fin [0, 0, 0, 0, 1, 1, 1, 1, 2, 2, 2, 2])) = Some (vec (map Fin [0, 1, 2]))"
    by (simp add: grid0_def vec_def)
  have "fieldline_length simpson0 data_in0 transforms0
          = Some (AList.update ''fieldline length''
              (vec (map (\<lambda>r. \<bar>(\<Sum>ya\<leftarrow>?Y. simpson0 (ya ! r) (map Fin [0, 1, 2]))
                                / Fin (real (length ?Y))\<bar>)
                      (inverse_rho_idx (source_grid \<lparr>source_grid = grid0\<rparr>))))
              data_in0)"
    by (rule fieldline_length_simpson_mean [OF tr bz reshape col zeta])
       (simp_all add: grid0_def)
  then show ?thesis
    by (simp add: grid0_def simpson0_def data0_def data_in0_def)
qed

section \<open>The pitch quadrature of a surface\<close>





section \<open>The stored quantity "effective ripple 3/2"\<close>

text \<open>
  The double sum that \<^verbatim>\<open>eps_32\<close> computes on one field line of one surface: for each pitch
  node the sum over the wells of \<open>H\<^sup>2 / I\<close>, safely divided, weighted over the pitch nodes
  by the inverse-pitch node \<^verbatim>\<open>pitch_inv\<close> to the power \<open>-3\<close> times the quadrature weight.
\<close>

definition kernel_sum :: "num list list \<Rightarrow> num list list \<Rightarrow> num list \<Rightarrow> num list \<Rightarrow> num" where
  "kernel_sum H I ps ws =
     (\<Sum>p\<leftarrow>[0..<length ps].
        (\<Sum>j\<leftarrow>[0..<length (H ! p)]. safediv_num (fpowi (H ! p ! j) 2) (I ! p ! j))
          * fpowi (ps ! p) (- 3) * ws ! p)"

lemma epsilon_32_stored:
  assumes tr: "map_of transforms ''grid'' = Some tr"
    and g: "g = source_grid tr"
    and quad: "quad = (case kw_quad kwargs of
                         Some q \<Rightarrow> q
                       | None \<Rightarrow> chebgauss2 (case kw_num_quad kwargs of Some n \<Rightarrow> n | None \<Rightarrow> 32))"
    and batch: "batch = (case kw_batch kwargs of Some b \<Rightarrow> b | None \<Rightarrow> True)"
    and np: "num_pitch = (case kw_num_pitch kwargs of Some n \<Rightarrow> n | None \<Rightarrow> 50)"
    and B0: "map_of data ''max_tz |B|'' = Some (vec b0)"
    and R0: "map_of data ''R0'' = Some (Sc r0)"
    and G: "map_of data ''<|grad(rho)|>'' = Some (vec gs)"
    and gr: "map_of data ''|grad(rho)|'' = Some (vec grs)"
    and ka: "map_of data ''kappa_g'' = Some (vec ks)"
    and L: "map_of data ''fieldline length'' = Some (vec ls)"
    and lens: "length b0 = n" "length gs = n" "length ls = n" "length ks = length grs"
      "length (inverse_rho_idx g) = n"
    and bmin: "map_of data ''min_tz |B|'' = Some bmin"
    and cmin: "compress g ''rho'' bmin = Some cmin"
    and cmax: "compress g ''rho'' (vec b0) = Some cmax"
    and pq: "get_pitch_inv_quad B cmin cmax num_pitch False = Some (mat P, mat W)"
    and copy: "copy_names (required_names B) data
                 [(''|grad(rho)|*kappa_g'', vec (map2 (*) grs ks))] = Some fd1"
    and reshape: "reshape_all B g fd1 = Some fd2"
    and outer: "lead_len fd2 = Some na"
    and inner: "\<forall>a<na. lead_len (slice a fd2) = Some (num_rho g)"
    and na: "0 < na"
    and shapeP: "length P = num_rho g" "length W = num_rho g"
      "\<forall>r<num_rho g. P ! r \<noteq> [] \<and> length (W ! r) = length (P ! r)"
    and integ: "\<forall>a<na. \<forall>r<num_rho g.
        integrate B g (fieldline_data (mat P) (mat W) fd2 a r) quad [dH, dI] (vec (P ! r))
          ''|grad(rho)|*kappa_g'' (kw_num_well kwargs) batch = Some [mat (H a r), mat (I a r)]
        \<and> length (H a r) = length (P ! r) \<and> length (I a r) = length (P ! r)
        \<and> (\<forall>p<length (P ! r). length (I a r ! p) = length (H a r ! p))"
    and idx: "list_all (\<lambda>r. r < num_rho g) (inverse_rho_idx g)"
  shows "epsilon_32 B chebgauss2 transforms data kwargs
           = Some (AList.update ''effective ripple 3/2''
               (vec (map (\<lambda>i. Fin (pi / (8 * sqrt 2)) * fpowi (b0 ! i * r0 / gs ! i) 2
                        * ((\<Sum>a\<leftarrow>[0..<na]. kernel_sum (H a (inverse_rho_idx g ! i))
                                (I a (inverse_rho_idx g ! i)) (P ! (inverse_rho_idx g ! i))
                                (W ! (inverse_rho_idx g ! i))) / Fin (real na))
                        / ls ! i) [0..<n]))
               data)"
proof -
  let ?E = "\<lambda>a r. kernel_sum (H a r) (I a r) (P ! r) (W ! r)"
  let ?cs = "map (\<lambda>r. (\<Sum>a\<leftarrow>[0..<na]. ?E a r) / Fin (real na)) (inverse_rho_idx g)"
  have E: "?E = (\<lambda>a r. \<Sum>p\<leftarrow>[0..<length (P ! r)].
                 (\<Sum>j\<leftarrow>[0..<length (H a r ! p)]. safediv_num (fpowi (H a r ! p ! j) 2) (I a r ! p ! j))
                   * fpowi (P ! r ! p) (- 3) * W ! r ! p)"
    by (simp add: kernel_sum_def)
  have comp: "compute B (eps_32 B g quad (kw_num_well kwargs) batch)
                [(''|grad(rho)|*kappa_g'', vec (map2 (*) grs ks))] data g num_pitch False True
              = Some (fd2, vec ?cs)"
    by (rule compute_kernel [OF bmin cmin B0 cmax pq copy reshape outer inner na shapeP integ idx E])
  have formula: "epsilon_32_value B chebgauss2 transforms data kwargs
      = Some (vec (map (\<lambda>i. Fin (pi / (8 * sqrt 2)) * fpowi (b0 ! i * r0 / gs ! i) 2
                              * ?cs ! i / ls ! i) [0..<n]))"
  proof (rule epsilon_32_value_formula [where cs = ?cs and kwargs = kwargs and quad = quad
        and batch = batch and num_pitch = num_pitch and grs = grs and ks = ks])
    show "compute B (eps_32 B (source_grid tr) quad (kw_num_well kwargs) batch)
            [(''|grad(rho)|*kappa_g'', vec (map2 (*) grs ks))] data (source_grid tr)
            num_pitch False True = Some (fd2, vec ?cs)"
      using comp unfolding g .
    show "length ?cs = n"
      using lens by simp
  qed (fact tr quad batch np B0 R0 G gr ka L lens)+
  have "map (\<lambda>i. Fin (pi / (8 * sqrt 2)) * fpowi (b0 ! i * r0 / gs ! i) 2 * ?cs ! i / ls ! i) [0..<n]
      = map (\<lambda>i. Fin (pi / (8 * sqrt 2)) * fpowi (b0 ! i * r0 / gs ! i) 2
               * ((\<Sum>a\<leftarrow>[0..<na]. ?E a (inverse_rho_idx g ! i)) / Fin (real na)) / ls ! i) [0..<n]"
    using lens(5) by simp
  with formula have stored: "epsilon_32 B chebgauss2 transforms data kwargs
      = Some (AList.update ''effective ripple 3/2''
          (vec (map (\<lambda>i. Fin (pi / (8 * sqrt 2)) * fpowi (b0 ! i * r0 / gs ! i) 2
               * ((\<Sum>a\<leftarrow>[0..<na]. ?E a (inverse_rho_idx g ! i)) / Fin (real na)) / ls ! i) [0..<n]))
          data)"
    by (simp only: epsilon_32_def option.map)
  show ?thesis
    using stored .
qed



lemma upt_12: "[0..<12] = [0, 1, 2, 3, 4, 5, 6, 7, 8, 9, 10, 11]"
  by (simp add: numeral_eq_Suc)

lemma kernel_sum0:
  assumes "a < 2" and "r < 2"
  shows "kernel_sum (H0 a r) (I0 a r) (P0 ! r) (W0 ! r) = E0 a r"
  using assms
  by (auto simp: less_2_cases_iff kernel_sum_def P0_def W0_def H0_def I0_def E0_def upt_2
        safediv_num_def zero_num_def)

lemma transforms0_grid: "map_of transforms0 ''grid'' = Some \<lparr>source_grid = grid0\<rparr>"
  by (simp add: transforms0_def)

lemma kwargs0_read:
  "chebgauss0 32 = (case kw_quad kwargs0 of Some q \<Rightarrow> q
      | None \<Rightarrow> chebgauss0 (case kw_num_quad kwargs0 of Some n \<Rightarrow> n | None \<Rightarrow> 32))"
  "True = (case kw_batch kwargs0 of Some b \<Rightarrow> b | None \<Rightarrow> True)"
  "2 = (case kw_num_pitch kwargs0 of Some n \<Rightarrow> n | None \<Rightarrow> 50)"
  by (simp_all add: kwargs0_def)

lemma data0_read:
  "map_of data0 ''max_tz |B|'' = Some (vec (map Fin [4, 4, 8, 8, 4, 4, 8, 8, 4, 4, 8, 8]))"
  "map_of data0 ''R0'' = Some (Sc (Fin 3))"
  "map_of data0 ''<|grad(rho)|>'' = Some (vec (map Fin [2, 2, 4, 4, 2, 2, 4, 4, 2, 2, 4, 4]))"
  "map_of data0 ''|grad(rho)|'' = Some (vec (map Fin [1, 1, 1, 1, 2, 2, 2, 2, 1, 1, 1, 1]))"
  "map_of data0 ''kappa_g'' = Some (vec (map Fin [1, 2, 1, 2, 1, 2, 1, 2, 1, 2, 1, 2]))"
  "map_of data0 ''fieldline length''
     = Some (vec (map Fin [4 / 3, 4 / 3, 2 / 3, 2 / 3, 4 / 3, 4 / 3, 2 / 3, 2 / 3,
                           4 / 3, 4 / 3, 2 / 3, 2 / 3]))"
  by (simp_all add: data0_def data_in0_def)

lemma data0_lengths:
  "length (map Fin [4, 4, 8, 8, 4, 4, 8, 8, 4, 4, 8, 8]) = 12"
  "length (map Fin [2, 2, 4, 4, 2, 2, 4, 4, 2, 2, 4, 4]) = 12"
  "length (map Fin [4 / 3, 4 / 3, 2 / 3, 2 / 3, 4 / 3, 4 / 3, 2 / 3, 2 / 3,
                    4 / 3, 4 / 3, 2 / 3, 2 / 3]) = 12"
  "length (map Fin [1, 2, 1, 2, 1, 2, 1, 2, 1, 2, 1, 2])
     = length (map Fin [1, 1, 1, 1, 2, 2, 2, 2, 1, 1, 1, 1])"
  "length (inverse_rho_idx grid0) = 12"
  by (simp_all add: grid0_def)

lemma copy_names0_product:
  "copy_names (required_names bounce0) data0
     [(''|grad(rho)|*kappa_g'',
       vec (map2 (*) (map Fin [1, 1, 1, 1, 2, 2, 2, 2, 1, 1, 1, 1])
                     (map Fin [1, 2, 1, 2, 1, 2, 1, 2, 1, 2, 1, 2])))]
   = Some [(''|grad(rho)|*kappa_g'', vec (map Fin [1, 2, 1, 2, 2, 4, 2, 4, 1, 2, 1, 2])),
           (''B^zeta'', vec (map Fin [1, 2, - 2, - 4, 1, 4, - 2, - 8, 1, 2, - 2, - 4])),
           (''|B|'', vec (map Fin [2, 3, 4, 5, 1, 4, 2, 8, 2, 3, 4, 5]))]"
  using copy_names0 by simp

lemma quadrature0_shape:
  "length P0 = num_rho grid0" "length W0 = num_rho grid0"
  "\<forall>r<num_rho grid0. P0 ! r \<noteq> [] \<and> length (W0 ! r) = length (P0 ! r)"
  by (simp_all add: P0_def W0_def grid0_def less_2_cases)

lemma grid0_idx: "list_all (\<lambda>r. r < num_rho grid0) (inverse_rho_idx grid0)"
  by (simp add: grid0_def)

lemma epsilon_32_run0:
  "epsilon_32 bounce0 chebgauss0 transforms0 data0 kwargs0
     = Some (data0 @
         [(''effective ripple 3/2'',
           vec (map Fin
             [1365 * pi / (256 * sqrt 2), 1365 * pi / (256 * sqrt 2),
              4305 * pi / (512 * sqrt 2), 4305 * pi / (512 * sqrt 2),
              1365 * pi / (256 * sqrt 2), 1365 * pi / (256 * sqrt 2),
              4305 * pi / (512 * sqrt 2), 4305 * pi / (512 * sqrt 2),
              1365 * pi / (256 * sqrt 2), 1365 * pi / (256 * sqrt 2),
              4305 * pi / (512 * sqrt 2), 4305 * pi / (512 * sqrt 2)]))])"
proof -
  have g: "grid0 = source_grid \<lparr>source_grid = grid0\<rparr>"
    by simp
  note stored = epsilon_32_stored [where H = H0 and I = I0 and P = P0 and W = W0
      and kwargs = kwargs0 and ?chebgauss2.0 = chebgauss0 and quad = "chebgauss0 32"
      and batch = True and num_pitch = 2 and g = grid0 and na = 2 and B = bounce0
      and data = data0 and transforms = transforms0 and n = 12,
      OF transforms0_grid g kwargs0_read data0_read data0_lengths data0_min compress_min0
        compress_max0 pitch_quad0' copy_names0_product reshape_all0 lead_len0 lead_len_slice0 _
        quadrature0_shape integrate0 grid0_idx]
  have "epsilon_32 bounce0 chebgauss0 transforms0 data0 kwargs0
          = Some (AList.update ''effective ripple 3/2''
              (vec (map Fin
                [1365 * pi / (256 * sqrt 2), 1365 * pi / (256 * sqrt 2),
                 4305 * pi / (512 * sqrt 2), 4305 * pi / (512 * sqrt 2),
                 1365 * pi / (256 * sqrt 2), 1365 * pi / (256 * sqrt 2),
                 4305 * pi / (512 * sqrt 2), 4305 * pi / (512 * sqrt 2),
                 1365 * pi / (256 * sqrt 2), 1365 * pi / (256 * sqrt 2),
                 4305 * pi / (512 * sqrt 2), 4305 * pi / (512 * sqrt 2)])) data0)"
    using stored
    by (simp add: upt_12 grid0_def kernel_sum0 upt_2 E0_def)
  then show ?thesis
    by (simp add: data0_def data_in0_def)
qed



end
